theory Spec2Isabelle
  imports Main "HOL-Library.Word" "HOL-Library.Sublist"
begin

section \<open>The Mixer contract (zk-payment-mixer/contracts/Mixer.sol)\<close>

text \<open>
  A shallow embedding of the Solidity contract \<open>Mixer\<close>. A call of an external function
  is a function from the contract's state to \<open>error + mixer\<close>: \<open>Inl\<close> is a revert (the
  EVM then discards every change of the call, so the caller keeps the state it had) and
  \<open>Inr\<close> is the state after a successful call.

  \<^item> \<open>bytes32\<close> and \<open>uint256\<close> are 256-bit words, \<open>address\<close> is a 160-bit word.
  \<^item> Amounts of wei are \<open>nat\<close>: the balances of the EVM are 256-bit, but the sum of all
    balances of a chain stays far below \<open>2 ^ 256\<close>, so no addition of balances wraps.
  \<^item> The three inherited OpenZeppelin contracts (version 4, the one that has the import
    paths \<open>security/ReentrancyGuard.sol\<close> and \<open>security/Pausable.sol\<close>) are unfolded
    into the functions that use them: \<open>whenNotPaused\<close> reverts with
    \<open>Pausable: paused\<close>, \<open>nonReentrant\<close> with \<open>ReentrancyGuard: reentrant call\<close>,
    \<open>onlyOwner\<close> with \<open>Ownable: caller is not the owner\<close>.
  \<^item> \<open>Verifier.sol\<close> is generated by snarkjs and is not part of the sources, so the
    verifier is a parameter \<open>V\<close>: what the external call \<open>verifier.verifyProof\<close>
    answers on a proof and a vector of public inputs. The call either returns a boolean
    (\<open>Inr\<close>) or reverts (\<open>Inl\<close>); Solidity has the revert of an external call
    bubble up unless it stands in a \<open>try\<close> statement.
  \<^item> The code of the account that receives ether is a parameter as well. In
    \<open>withdraw\<close> and \<open>emergencyWithdraw\<close> it is a function \<open>callee\<close> from the state of
    the contract at the moment of the call to \<open>None\<close>, when the callee reverts, or to
    the state in which it returns: the callee runs any code, reads the state through the
    public getters and can call back into the contract. In a run of calls the callee is
    the list of calls it makes back into the contract (each with the sender it reaches
    the contract with, and each reverting on its own when it fails) and whether it
    returns in the end. \<open>nonReentrant\<close> is the state of the guard, so a call back into
    \<open>deposit\<close> or \<open>withdraw\<close> from within \<open>withdraw\<close> reverts and a call back into the
    functions without the modifier runs.
  \<^item> Gas is not modelled.
\<close>

type_synonym bytes32 = "256 word"
type_synonym uint256 = "256 word"
type_synonym address = "160 word"

text \<open>A revert with its reason string: \<open>require(cond, reason)\<close>.\<close>

datatype error = Error string

text \<open>The value of \<open>_status\<close> of \<open>ReentrancyGuard\<close>.\<close>

datatype status = NOT_ENTERED | ENTERED

text \<open>
  The events of the contract, and those of \<open>Pausable\<close> and \<open>Ownable\<close>. \<open>Deposit\<close>
  carries the commitment, the amount and the block's timestamp.
\<close>

datatype event =
    Deposit bytes32 nat nat
  | Withdrawal address nat bytes32
  | MerkleRootUpdated bytes32
  | Paused address
  | Unpaused address
  | OwnershipTransferred address address

text \<open>
  The storage of the contract, its ether balance and its log. \<open>credited a\<close> is the
  amount of wei that calls of this contract have transferred to the account \<open>a\<close>:
  the ether of other accounts is not storage of the contract, and this field records
  what \<open>recipient.call{value: ...}\<close> adds to it.
\<close>

record mixer =
  nullifiers :: "bytes32 \<Rightarrow> bool"
  commitments :: "bytes32 \<Rightarrow> bool"
  merkleRoots :: "bytes32 list"
  verifier :: address
  paused :: bool
  status :: status
  owner :: address
  balance :: nat
  credited :: "address \<Rightarrow> nat"
  events :: "event list"

text \<open>
  A Groth16 proof as \<open>withdraw\<close> receives it: \<open>uint256[2] a\<close>, \<open>uint256[2][2] b\<close>,
  \<open>uint256[2] c\<close>.
\<close>

type_synonym groth16_proof =
  "(uint256 \<times> uint256) \<times> ((uint256 \<times> uint256) \<times> (uint256 \<times> uint256)) \<times> (uint256 \<times> uint256)"

type_synonym verifyProof = "groth16_proof \<Rightarrow> uint256 list \<Rightarrow> error + bool"

text \<open>\<open>uint256 public constant DEPOSIT_AMOUNT = 0.1 ether\<close>, in wei.\<close>

definition DEPOSIT_AMOUNT :: nat where
  "DEPOSIT_AMOUNT = 10 ^ 17"

text \<open>
  The constructor: \<open>Ownable\<close> makes the deployer the owner, \<open>Pausable\<close> starts
  unpaused, \<open>ReentrancyGuard\<close> starts not entered, and the body pushes the genesis root.
\<close>

definition constructor :: "address \<Rightarrow> address \<Rightarrow> mixer" where
  "constructor msg_sender verifier_address =
     \<lparr> nullifiers = (\<lambda>_. False),
       commitments = (\<lambda>_. False),
       merkleRoots = [0],
       verifier = verifier_address,
       paused = False,
       status = NOT_ENTERED,
       owner = msg_sender,
       balance = 0,
       credited = (\<lambda>_. 0),
       events = [OwnershipTransferred 0 msg_sender] \<rparr>"

subsection \<open>isValidRoot\<close>

text \<open>
  \<^verbatim>\<open>for (uint256 i = 0; i < merkleRoots.length; i++) { if (merkleRoots[i] == root) return true; }
  return false;\<close>
\<close>

function isValidRoot_loop :: "bytes32 list \<Rightarrow> nat \<Rightarrow> bytes32 \<Rightarrow> bool" where
  "isValidRoot_loop roots i root =
     (if i < length roots
      then (if roots ! i = root then True else isValidRoot_loop roots (Suc i) root)
      else False)"
  by pat_completeness auto
termination
  by (relation "measure (\<lambda>(roots, i, root). length roots - i)") auto

declare isValidRoot_loop.simps [simp del]

definition isValidRoot :: "mixer \<Rightarrow> bytes32 \<Rightarrow> bool" where
  "isValidRoot s root = isValidRoot_loop (merkleRoots s) 0 root"

subsection \<open>deposit\<close>

text \<open>
  \<^verbatim>\<open>function deposit(bytes32 commitment) external payable whenNotPaused nonReentrant\<close>

  The value sent with the call is added to the balance of the contract when the call
  starts and stays there when the call succeeds.
\<close>

definition deposit :: "mixer \<Rightarrow> bytes32 \<Rightarrow> nat \<Rightarrow> nat \<Rightarrow> error + mixer" where
  "deposit s commitment msg_value block_timestamp =
     (if paused s then Inl (Error ''Pausable: paused'')
      else if status s = ENTERED then Inl (Error ''ReentrancyGuard: reentrant call'')
      else if msg_value \<noteq> DEPOSIT_AMOUNT then Inl (Error ''Incorrect deposit amount'')
      else if commitments s commitment then Inl (Error ''Commitment exists'')
      else Inr (s\<lparr> commitments := (commitments s)(commitment := True),
                  balance := balance s + msg_value,
                  events := events s @ [Deposit commitment msg_value block_timestamp] \<rparr>))"

subsection \<open>withdraw\<close>

text \<open>
  \<^verbatim>\<open>(bool sent, ) = to.call{value: amount}("")\<close>: the call fails when the contract
  holds less than \<open>amount\<close>; otherwise the amount moves to the callee, whose code runs
  from the state of that moment and returns in some state of the contract; when the
  callee reverts, the move and everything it did are undone. \<open>None\<close> is \<open>sent = false\<close>.
\<close>

definition call_value ::
  "(mixer \<Rightarrow> mixer option) \<Rightarrow> mixer \<Rightarrow> address \<Rightarrow> nat \<Rightarrow> mixer option" where
  "call_value callee s to amount =
     (if balance s < amount then None
      else callee (s\<lparr> balance := balance s - amount,
                      credited := (credited s)(to := credited s to + amount) \<rparr>))"

text \<open>
  \<^verbatim>\<open>uint256[3] memory inputs = [uint256(root), uint256(nullifierHash), uint256(uint160(recipient))];\<close>
\<close>

definition inputs :: "bytes32 \<Rightarrow> bytes32 \<Rightarrow> address \<Rightarrow> uint256 list" where
  "inputs root nullifierHash recipient = [root, nullifierHash, ucast recipient]"

text \<open>
  \<^verbatim>\<open>function withdraw(a, b, c, root, nullifierHash, recipient) external whenNotPaused nonReentrant\<close>

  \<open>nonReentrant\<close> sets \<open>_status\<close> to entered before the body and back after it.
\<close>

definition withdraw ::
  "verifyProof \<Rightarrow> (mixer \<Rightarrow> mixer option) \<Rightarrow> mixer \<Rightarrow> groth16_proof \<Rightarrow> bytes32 \<Rightarrow> bytes32 \<Rightarrow> address
     \<Rightarrow> error + mixer" where
  "withdraw V callee s pf root nullifierHash recipient =
     (if paused s then Inl (Error ''Pausable: paused'')
      else if status s = ENTERED then Inl (Error ''ReentrancyGuard: reentrant call'')
      else if recipient = 0 then Inl (Error ''Invalid recipient'')
      else if nullifiers s nullifierHash then Inl (Error ''Nullifier used'')
      else if \<not> isValidRoot s root then Inl (Error ''Invalid root'')
      else (case V pf (inputs root nullifierHash recipient) of
              Inl e \<Rightarrow> Inl e
            | Inr ok \<Rightarrow>
                if \<not> ok then Inl (Error ''Invalid proof'')
                else (case call_value callee
                             (s\<lparr> nullifiers := (nullifiers s)(nullifierHash := True),
                                status := ENTERED \<rparr>)
                             recipient DEPOSIT_AMOUNT of
                        None \<Rightarrow> Inl (Error ''Transfer failed'')
                      | Some s' \<Rightarrow>
                          Inr (s'\<lparr> status := NOT_ENTERED,
                                   events := events s' @
                                     [Withdrawal recipient DEPOSIT_AMOUNT nullifierHash] \<rparr>))))"

subsection \<open>The owner's functions\<close>

definition addMerkleRoot :: "mixer \<Rightarrow> address \<Rightarrow> bytes32 \<Rightarrow> error + mixer" where
  "addMerkleRoot s msg_sender newRoot =
     (if owner s \<noteq> msg_sender then Inl (Error ''Ownable: caller is not the owner'')
      else Inr (s\<lparr> merkleRoots := merkleRoots s @ [newRoot],
                  events := events s @ [MerkleRootUpdated newRoot] \<rparr>))"

definition pause :: "mixer \<Rightarrow> address \<Rightarrow> error + mixer" where
  "pause s msg_sender =
     (if owner s \<noteq> msg_sender then Inl (Error ''Ownable: caller is not the owner'')
      else if paused s then Inl (Error ''Pausable: paused'')
      else Inr (s\<lparr> paused := True, events := events s @ [Paused msg_sender] \<rparr>))"

definition unpause :: "mixer \<Rightarrow> address \<Rightarrow> error + mixer" where
  "unpause s msg_sender =
     (if owner s \<noteq> msg_sender then Inl (Error ''Ownable: caller is not the owner'')
      else if \<not> paused s then Inl (Error ''Pausable: not paused'')
      else Inr (s\<lparr> paused := False, events := events s @ [Unpaused msg_sender] \<rparr>))"

definition emergencyWithdraw ::
  "(mixer \<Rightarrow> mixer option) \<Rightarrow> mixer \<Rightarrow> address \<Rightarrow> address \<Rightarrow> error + mixer" where
  "emergencyWithdraw callee s msg_sender to =
     (if owner s \<noteq> msg_sender then Inl (Error ''Ownable: caller is not the owner'')
      else (case call_value callee s to (balance s) of
              None \<Rightarrow> Inl (Error ''Emergency withdraw failed'')
            | Some s' \<Rightarrow> Inr s'))"

text \<open>The two public functions that \<open>Ownable\<close> adds to the contract.\<close>

definition transferOwnership :: "mixer \<Rightarrow> address \<Rightarrow> address \<Rightarrow> error + mixer" where
  "transferOwnership s msg_sender newOwner =
     (if owner s \<noteq> msg_sender then Inl (Error ''Ownable: caller is not the owner'')
      else if newOwner = 0 then Inl (Error ''Ownable: new owner is the zero address'')
      else Inr (s\<lparr> owner := newOwner,
                  events := events s @ [OwnershipTransferred (owner s) newOwner] \<rparr>))"

definition renounceOwnership :: "mixer \<Rightarrow> address \<Rightarrow> error + mixer" where
  "renounceOwnership s msg_sender =
     (if owner s \<noteq> msg_sender then Inl (Error ''Ownable: caller is not the owner'')
      else Inr (s\<lparr> owner := 0,
                  events := events s @ [OwnershipTransferred (owner s) 0] \<rparr>))"

subsection \<open>Runs of the contract\<close>

text \<open>
  A transaction is a sender and a call of one of the state-changing functions. A call
  that pays ether out carries the behaviour of the callee: the calls that the callee
  makes back into the contract while it is paid, and whether it returns (\<open>True\<close>) or
  reverts (\<open>False\<close>) in the end. A call that reverts leaves the state as it was, for
  the caller to go on: a callee that does not want to go on reverts itself.
\<close>

datatype call =
    Call_deposit bytes32 nat nat
  | Call_withdraw "(address \<times> call) list" bool groth16_proof bytes32 bytes32 address
  | Call_addMerkleRoot bytes32
  | Call_pause
  | Call_unpause
  | Call_emergencyWithdraw "(address \<times> call) list" bool address
  | Call_transferOwnership address
  | Call_renounceOwnership

fun exec :: "verifyProof \<Rightarrow> mixer \<Rightarrow> address \<Rightarrow> call \<Rightarrow> error + mixer"
  and run :: "verifyProof \<Rightarrow> mixer \<Rightarrow> (address \<times> call) list \<Rightarrow> mixer" where
  "exec V s sender (Call_deposit c v t) = deposit s c v t"
| "exec V s sender (Call_withdraw txs returns pf root h r) =
     withdraw V (\<lambda>u. if returns then Some (run V u txs) else None) s pf root h r"
| "exec V s sender (Call_addMerkleRoot newRoot) = addMerkleRoot s sender newRoot"
| "exec V s sender Call_pause = pause s sender"
| "exec V s sender Call_unpause = unpause s sender"
| "exec V s sender (Call_emergencyWithdraw txs returns to) =
     emergencyWithdraw (\<lambda>u. if returns then Some (run V u txs) else None) s sender to"
| "exec V s sender (Call_transferOwnership newOwner) = transferOwnership s sender newOwner"
| "exec V s sender Call_renounceOwnership = renounceOwnership s sender"
| "run V s [] = s"
| "run V s ((sender, c) # txs) =
     run V (case exec V s sender c of Inl e \<Rightarrow> s | Inr s' \<Rightarrow> s') txs"

text \<open>A reverted transaction leaves the state as it was.\<close>

definition step :: "verifyProof \<Rightarrow> mixer \<Rightarrow> address \<times> call \<Rightarrow> mixer" where
  "step V s tx = (case exec V s (fst tx) (snd tx) of Inl e \<Rightarrow> s | Inr s' \<Rightarrow> s')"

definition succeeded :: "error + 'a \<Rightarrow> bool" where
  "succeeded res = (case res of Inl e \<Rightarrow> False | Inr x \<Rightarrow> True)"

text \<open>
  The number of \<open>Withdrawal\<close> events with the nullifier hash \<open>h\<close> in a log: every
  \<open>withdraw\<close> that succeeds, called from outside or by a callee, logs one, and the
  log of a call that reverts is discarded with the call.
\<close>

fun withdrawn :: "bytes32 \<Rightarrow> event list \<Rightarrow> nat" where
  "withdrawn h [] = 0"
| "withdrawn h (Withdrawal recipient amount h' # es) = (if h' = h then 1 else 0) + withdrawn h es"
| "withdrawn h (e # es) = withdrawn h es"

text \<open>
  What every successful call, and every run of calls, keeps: a spent nullifier hash stays
  spent and no withdrawal with it is logged, a commitment stays present, the root history
  and the log are extended, and the guard is as it was.
\<close>

definition frame :: "mixer \<Rightarrow> mixer \<Rightarrow> bool" where
  "frame s s' \<longleftrightarrow>
     (\<forall>h. nullifiers s h \<longrightarrow> nullifiers s' h \<and> withdrawn h (events s') = withdrawn h (events s)) \<and>
     (\<forall>c. commitments s c \<longrightarrow> commitments s' c) \<and>
     prefix (merkleRoots s) (merkleRoots s') \<and>
     prefix (events s) (events s') \<and>
     status s' = status s"

text \<open>At most one withdrawal with \<open>h\<close> is logged, and none while \<open>h\<close> is unspent.\<close>

definition spent_once :: "bytes32 \<Rightarrow> mixer \<Rightarrow> bool" where
  "spent_once h s \<longleftrightarrow> withdrawn h (events s) \<le> (if nullifiers s h then 1 else 0)"

text \<open>
  \<open>deposit_upto s n\<close> deposits the \<open>n\<close> commitments \<open>0, 1, ..., n - 1\<close> one after the
  other, each with the right amount, and stops at the first deposit that reverts.
\<close>

fun deposit_upto :: "mixer \<Rightarrow> nat \<Rightarrow> error + mixer" where
  "deposit_upto s 0 = Inr s"
| "deposit_upto s (Suc n) =
     (case deposit_upto s n of
        Inl e \<Rightarrow> Inl e
      | Inr s' \<Rightarrow> deposit s' (of_nat n) DEPOSIT_AMOUNT 0)"

subsection \<open>A deployment to evaluate the contract on\<close>

text \<open>
  The verifier of the repository's tests is a placeholder that accepts the all-zero
  proof (\<open>withdraw works with placeholder verifier\<close> in \<open>test/mixer.test.js\<close>); the
  second verifier reverts, as a generated verifier does on a public input outside the
  scalar field and as the call does when no contract stands at the verifier's address.
  \<open>accepts\<close> is a payee that takes the ether and does nothing else;
  \<open>reading_payee\<close> is a contract that reads the public getter \<open>commitments(5)\<close> when
  it is paid and reverts unless the commitment is present. The deployer is account 1,
  the verifier stands at address 2, account 3 deposits the commitment 5 and then
  withdraws with the nullifier hash 7 to the recipient \<open>0xABC\<close> against the genesis
  root.
\<close>

definition placeholder_verifier :: verifyProof where
  "placeholder_verifier pf ins = Inr True"

definition reverting_verifier :: verifyProof where
  "reverting_verifier pf ins = Inl (Error ''verifier-gte-snark-scalar-field'')"

definition accepts :: "mixer \<Rightarrow> mixer option" where
  "accepts u = Some u"

definition reading_payee :: "mixer \<Rightarrow> mixer option" where
  "reading_payee u = (if commitments u 5 then Some u else None)"

definition zero_proof :: groth16_proof where
  "zero_proof = ((0, 0), ((0, 0), (0, 0)), (0, 0))"

definition deployed :: mixer where
  "deployed = constructor 1 2"

definition funded :: mixer where
  "funded = run placeholder_verifier deployed [(3, Call_deposit 5 DEPOSIT_AMOUNT 0)]"

definition after_withdrawal :: mixer where
  "after_withdrawal =
     run placeholder_verifier funded [(3, Call_withdraw [] True zero_proof 0 7 0xABC)]"

text \<open>The funded contract after the owner has paused it.\<close>

definition paused_mixer :: mixer where
  "paused_mixer = run placeholder_verifier funded [(1, Call_pause)]"

section \<open>Basic facts\<close>

lemma isValidRoot_loop_iff:
  "isValidRoot_loop roots i root \<longleftrightarrow> (\<exists>j. i \<le> j \<and> j < length roots \<and> roots ! j = root)"
proof (induction roots i root rule: isValidRoot_loop.induct)
  case (1 roots i root)
  show ?case
  proof (cases "i < length roots")
    case False
    then show ?thesis by (simp add: isValidRoot_loop.simps [of roots i root])
  next
    case inb: True
    show ?thesis
    proof (cases "roots ! i = root")
      case True
      with inb show ?thesis
        by (auto simp: isValidRoot_loop.simps [of roots i root])
    next
      case False
      with inb "1.IH" have "isValidRoot_loop roots i root
          \<longleftrightarrow> (\<exists>j. Suc i \<le> j \<and> j < length roots \<and> roots ! j = root)"
        by (simp add: isValidRoot_loop.simps [of roots i root])
      also have "\<dots> \<longleftrightarrow> (\<exists>j. i \<le> j \<and> j < length roots \<and> roots ! j = root)"
        using False by (metis Suc_leD Suc_leI le_neq_implies_less)
      finally show ?thesis .
    qed
  qed
qed

lemma isValidRoot_set: "isValidRoot s root \<longleftrightarrow> root \<in> set (merkleRoots s)"
  by (auto simp: isValidRoot_def isValidRoot_loop_iff in_set_conv_nth)

lemma succeeded_simps [simp]: "succeeded (Inl e) = False" "succeeded (Inr x) = True"
  by (simp_all add: succeeded_def)

lemma run_Cons: "run V s (tx # txs) = run V (step V s tx) txs"
  by (cases tx) (simp add: step_def)

lemma withdrawn_append [simp]: "withdrawn h (xs @ ys) = withdrawn h xs + withdrawn h ys"
  by (induction h xs rule: withdrawn.induct) simp_all

subsection \<open>What a call can change\<close>

lemma frame_refl [simp]: "frame s s"
  by (simp add: frame_def)

lemma frame_trans:
  assumes "frame s t" and "frame t u"
  shows "frame s u"
proof -
  have "nullifiers u h \<and> withdrawn h (events u) = withdrawn h (events s)"
    if "nullifiers s h" for h
  proof -
    from that assms(1) have "nullifiers t h" "withdrawn h (events t) = withdrawn h (events s)"
      unfolding frame_def by blast+
    moreover from this(1) assms(2)
    have "nullifiers u h" "withdrawn h (events u) = withdrawn h (events t)"
      unfolding frame_def by blast+
    ultimately show ?thesis by simp
  qed
  moreover have "commitments u c" if "commitments s c" for c
    using that assms unfolding frame_def by blast
  moreover have "prefix (merkleRoots s) (merkleRoots u)" "prefix (events s) (events u)"
    using assms unfolding frame_def by (blast intro: prefix_order.trans)+
  moreover have "status u = status s"
    using assms unfolding frame_def by simp
  ultimately show ?thesis unfolding frame_def by blast
qed

lemma deposit_frame: "deposit s c v t = Inr s' \<Longrightarrow> frame s s'"
  by (auto simp: deposit_def frame_def split: if_splits)

lemma addMerkleRoot_frame: "addMerkleRoot s sender newRoot = Inr s' \<Longrightarrow> frame s s'"
  by (auto simp: addMerkleRoot_def frame_def split: if_splits)

lemma pause_frame: "pause s sender = Inr s' \<Longrightarrow> frame s s'"
  by (auto simp: pause_def frame_def split: if_splits)

lemma unpause_frame: "unpause s sender = Inr s' \<Longrightarrow> frame s s'"
  by (auto simp: unpause_def frame_def split: if_splits)

lemma transferOwnership_frame: "transferOwnership s sender newOwner = Inr s' \<Longrightarrow> frame s s'"
  by (auto simp: transferOwnership_def frame_def split: if_splits)

lemma renounceOwnership_frame: "renounceOwnership s sender = Inr s' \<Longrightarrow> frame s s'"
  by (auto simp: renounceOwnership_def frame_def split: if_splits)

lemma call_value_frame:
  assumes "\<And>u u'. callee u = Some u' \<Longrightarrow> frame u u'"
    and "call_value callee s to amount = Some s'"
  shows "frame s s'"
proof -
  let ?t = "s\<lparr> balance := balance s - amount,
               credited := (credited s)(to := credited s to + amount) \<rparr>"
  from assms(2) have "callee ?t = Some s'"
    by (simp add: call_value_def split: if_splits)
  then have "frame ?t s'" by (rule assms(1))
  moreover have "frame s ?t" by (simp add: frame_def)
  ultimately show ?thesis by (rule frame_trans [rotated])
qed

lemma emergencyWithdraw_frame:
  assumes "\<And>u u'. callee u = Some u' \<Longrightarrow> frame u u'"
    and "emergencyWithdraw callee s sender to = Inr s'"
  shows "frame s s'"
  using assms(2) call_value_frame [OF assms(1)]
  by (auto simp: emergencyWithdraw_def split: if_splits option.splits)

text \<open>
  The parts of \<open>withdraw\<close>: a successful call marks the nullifier hash, pays, runs the
  callee, releases the guard and logs the event.
\<close>

lemma withdraw_Inr:
  assumes "withdraw V callee s pf root h r = Inr s'"
  shows "\<not> paused s \<and> status s = NOT_ENTERED \<and> r \<noteq> 0 \<and> \<not> nullifiers s h \<and> isValidRoot s root \<and>
    V pf (inputs root h r) = Inr True \<and> DEPOSIT_AMOUNT \<le> balance s \<and>
    (\<exists>u. callee (s\<lparr> nullifiers := (nullifiers s)(h := True), status := ENTERED,
                     balance := balance s - DEPOSIT_AMOUNT,
                     credited := (credited s)(r := credited s r + DEPOSIT_AMOUNT) \<rparr>) = Some u \<and>
         s' = u\<lparr> status := NOT_ENTERED,
                 events := events u @ [Withdrawal r DEPOSIT_AMOUNT h] \<rparr>)"
proof -
  have "status s = NOT_ENTERED \<or> status s = ENTERED"
    by (cases "status s") simp_all
  with assms show ?thesis
    by (auto simp: withdraw_def call_value_def split: if_splits sum.splits option.splits)
qed

lemma withdraw_frame:
  assumes callee: "\<And>u u'. callee u = Some u' \<Longrightarrow> frame u u'"
    and ok: "withdraw V callee s pf root h r = Inr s'"
  shows "frame s s'"
proof -
  let ?t = "s\<lparr> nullifiers := (nullifiers s)(h := True), status := ENTERED,
               balance := balance s - DEPOSIT_AMOUNT,
               credited := (credited s)(r := credited s r + DEPOSIT_AMOUNT) \<rparr>"
  from withdraw_Inr [OF ok] obtain u where fresh: "\<not> nullifiers s h"
    and st: "status s = NOT_ENTERED" and u: "callee ?t = Some u"
    and s': "s' = u\<lparr> status := NOT_ENTERED,
                     events := events u @ [Withdrawal r DEPOSIT_AMOUNT h] \<rparr>"
    by blast
  have tu: "frame ?t u" using u by (rule callee)
  have "nullifiers s' k \<and> withdrawn k (events s') = withdrawn k (events s)"
    if k: "nullifiers s k" for k
  proof -
    from k fresh have "k \<noteq> h" by auto
    moreover from k have "nullifiers ?t k" by simp
    with tu have "nullifiers u k" "withdrawn k (events u) = withdrawn k (events ?t)"
      unfolding frame_def by blast+
    ultimately show ?thesis by (simp add: s')
  qed
  moreover have "commitments s' c" if "commitments s c" for c
    using that tu by (simp add: frame_def s')
  moreover have "prefix (merkleRoots s) (merkleRoots s')"
    using tu by (simp add: frame_def s')
  moreover have "prefix (events s) (events s')"
    using tu by (auto simp: frame_def s' prefix_def)
  moreover have "status s' = status s"
    by (simp add: s' st)
  ultimately show ?thesis unfolding frame_def by blast
qed

lemma frame_exec_run:
  "(\<forall>s'. exec V s sender c = Inr s' \<longrightarrow> frame s s')"
  "frame s (run V s txs)"
proof (induction V s sender c and V s txs rule: exec_run.induct)
  case (2 V s sender txs returns pf root h r)
  then have "\<And>u u'. (if returns then Some (run V u txs) else None) = Some u' \<Longrightarrow> frame u u'"
    by (auto split: if_splits)
  then show ?case by (auto dest: withdraw_frame [rotated])
next
  case (6 V s sender txs returns to)
  then have "\<And>u u'. (if returns then Some (run V u txs) else None) = Some u' \<Longrightarrow> frame u u'"
    by (auto split: if_splits)
  then show ?case by (auto dest: emergencyWithdraw_frame [rotated])
next
  case (10 V s sender c txs)
  then show ?case by (auto split: sum.splits intro: frame_trans)
qed (auto dest: deposit_frame addMerkleRoot_frame pause_frame unpause_frame
      transferOwnership_frame renounceOwnership_frame)

lemma run_frame: "frame s (run V s txs)"
  by (rule frame_exec_run)

lemma exec_frame: "exec V s sender c = Inr s' \<Longrightarrow> frame s s'"
  using frame_exec_run(1) by blast

lemma run_nullifiers_mono: "nullifiers s h \<Longrightarrow> nullifiers (run V s txs) h"
  using run_frame [of s V txs] by (simp add: frame_def)

lemma run_withdrawn: "nullifiers s h \<Longrightarrow> withdrawn h (events (run V s txs)) = withdrawn h (events s)"
  using run_frame [of s V txs] by (simp add: frame_def)

lemma run_commitments_mono: "commitments s c \<Longrightarrow> commitments (run V s txs) c"
  using run_frame [of s V txs] by (simp add: frame_def)

lemma run_roots_prefix: "prefix (merkleRoots s) (merkleRoots (run V s txs))"
  using run_frame [of s V txs] by (simp add: frame_def)

lemma exec_roots_prefix: "exec V s sender c = Inr s' \<Longrightarrow> prefix (merkleRoots s) (merkleRoots s')"
  by (drule exec_frame) (simp add: frame_def)

lemma run_status: "status (run V s txs) = status s"
  using run_frame [of s V txs] by (simp add: frame_def)

lemma withdraw_spent:
  "nullifiers s h \<Longrightarrow>
   withdraw V callee s pf root h r =
     Inl (Error (if paused s then ''Pausable: paused''
                 else if status s = ENTERED then ''ReentrancyGuard: reentrant call''
                 else if r = 0 then ''Invalid recipient''
                 else ''Nullifier used''))"
  by (simp add: withdraw_def)

subsection \<open>At most one logged withdrawal for a nullifier hash\<close>

lemma spent_once_plain:
  "nullifiers s' = nullifiers s \<Longrightarrow> withdrawn k (events s') = withdrawn k (events s) \<Longrightarrow>
   spent_once k s \<Longrightarrow> spent_once k s'"
  by (simp add: spent_once_def)

lemma withdraw_spent_once:
  assumes callee: "\<And>u u'. callee u = Some u' \<Longrightarrow> frame u u' \<and> (spent_once k u \<longrightarrow> spent_once k u')"
    and ok: "withdraw V callee s pf root h r = Inr s'"
    and s: "spent_once k s"
  shows "spent_once k s'"
proof -
  let ?t = "s\<lparr> nullifiers := (nullifiers s)(h := True), status := ENTERED,
               balance := balance s - DEPOSIT_AMOUNT,
               credited := (credited s)(r := credited s r + DEPOSIT_AMOUNT) \<rparr>"
  from withdraw_Inr [OF ok] obtain u where fresh: "\<not> nullifiers s h"
    and u: "callee ?t = Some u"
    and s': "s' = u\<lparr> status := NOT_ENTERED,
                     events := events u @ [Withdrawal r DEPOSIT_AMOUNT h] \<rparr>"
    by blast
  have t: "spent_once k ?t" using s by (auto simp: spent_once_def split: if_splits)
  from callee [OF u] t have tu: "frame ?t u" and su: "spent_once k u" by blast+
  show ?thesis
  proof (cases "h = k")
    case False
    with su show ?thesis by (simp add: spent_once_def s')
  next
    case True
    with fresh s have "withdrawn k (events s) = 0" by (simp add: spent_once_def)
    moreover from True have "nullifiers ?t k" by simp
    with tu have "nullifiers u k" "withdrawn k (events u) = withdrawn k (events ?t)"
      unfolding frame_def by blast+
    ultimately show ?thesis using True by (simp add: spent_once_def s')
  qed
qed

lemma emergencyWithdraw_spent_once:
  assumes callee: "\<And>u u'. callee u = Some u' \<Longrightarrow> frame u u' \<and> (spent_once k u \<longrightarrow> spent_once k u')"
    and ok: "emergencyWithdraw callee s sender to = Inr s'"
    and s: "spent_once k s"
  shows "spent_once k s'"
proof -
  let ?t = "s\<lparr> balance := balance s - balance s,
               credited := (credited s)(to := credited s to + balance s) \<rparr>"
  from ok have "callee ?t = Some s'"
    by (auto simp: emergencyWithdraw_def call_value_def split: if_splits option.splits)
  moreover have "spent_once k ?t" using s by (simp add: spent_once_def)
  ultimately show ?thesis using callee by blast
qed

lemma spent_once_exec_run:
  "(\<forall>s'. exec V s sender c = Inr s' \<longrightarrow> spent_once k s \<longrightarrow> spent_once k s')"
  "spent_once k s \<longrightarrow> spent_once k (run V s txs)"
proof (induction V s sender c and V s txs rule: exec_run.induct)
  case (2 V s sender txs returns pf root h r)
  then have "\<And>u u'. (if returns then Some (run V u txs) else None) = Some u' \<Longrightarrow>
      frame u u' \<and> (spent_once k u \<longrightarrow> spent_once k u')"
    by (auto split: if_splits simp: run_frame)
  then show ?case by (auto dest: withdraw_spent_once [rotated])
next
  case (6 V s sender txs returns to)
  then have "\<And>u u'. (if returns then Some (run V u txs) else None) = Some u' \<Longrightarrow>
      frame u u' \<and> (spent_once k u \<longrightarrow> spent_once k u')"
    by (auto split: if_splits simp: run_frame)
  then show ?case by (auto dest: emergencyWithdraw_spent_once [rotated])
next
  case (10 V s sender c txs)
  then show ?case by (auto split: sum.splits)
qed (auto simp: deposit_def addMerkleRoot_def pause_def unpause_def transferOwnership_def
      renounceOwnership_def spent_once_def split: if_splits)

lemma constructor_spent_once: "spent_once k (constructor deployer verifier_address)"
  by (simp add: spent_once_def constructor_def)

lemma run_withdrawn_le_1:
  "withdrawn k (events (run V (constructor deployer verifier_address) txs)) \<le> 1"
proof -
  have "spent_once k (run V (constructor deployer verifier_address) txs)"
    using spent_once_exec_run(2) constructor_spent_once by blast
  then show ?thesis by (simp add: spent_once_def split: if_splits)
qed

subsection \<open>Deposits of distinct commitments\<close>

lemma unat_eq_word: "unat (c :: bytes32) = n \<longleftrightarrow> n < 2 ^ 256 \<and> c = of_nat n"
proof
  assume "unat c = n"
  then show "n < 2 ^ 256 \<and> c = of_nat n"
    using unsigned_less [of c, where 'a = nat] by auto
next
  assume "n < 2 ^ 256 \<and> c = of_nat n"
  then show "unat c = n" by (simp add: unat_of_nat)
qed

lemma deposit_upto_state:
  assumes "\<not> paused s" and "status s = NOT_ENTERED" and "\<And>c. \<not> commitments s c"
  shows "n \<le> 2 ^ 256 \<Longrightarrow>
    \<exists>s'. deposit_upto s n = Inr s' \<and> \<not> paused s' \<and> status s' = NOT_ENTERED \<and>
         commitments s' = (\<lambda>c. unat c < n) \<and>
         balance s' = balance s + n * DEPOSIT_AMOUNT \<and>
         merkleRoots s' = merkleRoots s"
proof (induction n)
  case 0
  with assms show ?case by (simp add: fun_eq_iff)
next
  case (Suc n)
  then have n: "n < 2 ^ 256" by simp
  with Suc.IH obtain s1 where s1: "deposit_upto s n = Inr s1" "\<not> paused s1"
    "status s1 = NOT_ENTERED" "commitments s1 = (\<lambda>c. unat c < n)"
    "balance s1 = balance s + n * DEPOSIT_AMOUNT" "merkleRoots s1 = merkleRoots s"
    by auto
  have fresh: "\<not> commitments s1 (of_nat n)"
    using n by (simp add: s1(4) unat_of_nat)
  have upd: "(\<lambda>c. unat c < n)(of_nat n := True) = (\<lambda>c :: bytes32. unat c < Suc n)"
    using n by (auto simp: fun_eq_iff less_Suc_eq unat_eq_word)
  show ?case
    using s1 fresh upd by (simp add: deposit_def)
qed

subsection \<open>The deployment, evaluated\<close>

lemma funded_eq:
  "funded =
     \<lparr> nullifiers = (\<lambda>_. False),
       commitments = (\<lambda>_. False)(5 := True),
       merkleRoots = [0],
       verifier = 2,
       paused = False,
       status = NOT_ENTERED,
       owner = 1,
       balance = DEPOSIT_AMOUNT,
       credited = (\<lambda>_. 0),
       events = [OwnershipTransferred 0 1, Deposit 5 DEPOSIT_AMOUNT 0] \<rparr>"
  by (simp add: funded_def deployed_def constructor_def deposit_def)

lemma after_withdrawal_eq:
  "after_withdrawal =
     \<lparr> nullifiers = (\<lambda>_. False)(7 := True),
       commitments = (\<lambda>_. False)(5 := True),
       merkleRoots = [0],
       verifier = 2,
       paused = False,
       status = NOT_ENTERED,
       owner = 1,
       balance = 0,
       credited = (\<lambda>_. 0)(0xABC := DEPOSIT_AMOUNT),
       events = [OwnershipTransferred 0 1, Deposit 5 DEPOSIT_AMOUNT 0,
                 Withdrawal 0xABC DEPOSIT_AMOUNT 7] \<rparr>"
  by (simp add: after_withdrawal_def funded_eq withdraw_def call_value_def
      isValidRoot_set placeholder_verifier_def inputs_def)

lemma funded_withdraw:
  "withdraw placeholder_verifier accepts funded zero_proof 0 7 0xABC = Inr after_withdrawal"
  by (simp add: after_withdrawal_eq funded_eq withdraw_def call_value_def
      isValidRoot_set placeholder_verifier_def accepts_def inputs_def)

lemma funded_exec_withdraw:
  "exec placeholder_verifier funded 3 (Call_withdraw [] True zero_proof 0 7 0xABC)
     = Inr after_withdrawal"
  by (simp add: after_withdrawal_eq funded_eq withdraw_def call_value_def
      isValidRoot_set placeholder_verifier_def inputs_def)

lemma paused_mixer_eq:
  "paused_mixer = funded\<lparr> paused := True, events := events funded @ [Paused 1] \<rparr>"
  by (simp add: paused_mixer_def funded_eq pause_def)

lemma commitments_update_last:
  "(s\<lparr> commitments := cm \<rparr>)\<lparr> nullifiers := n, status := st, balance := b, credited := cr \<rparr>
     = s\<lparr> nullifiers := n, status := st, balance := b, credited := cr, commitments := cm \<rparr>"
  by simp

section \<open>The claims\<close>

subsection \<open>C1: a nullifier hash is spent at most once\<close>

text \<open>
  Claim C1: a nullifier hash goes from unspent to spent at most once and never back, at
  most one \<open>withdraw\<close> with it ever succeeds, and every later \<open>withdraw\<close> with it
  fails with \<open>Nullifier used\<close>, whatever proof it brings.

  In every state that a run of calls reaches from the constructor, at most one
  withdrawal with the hash \<open>h\<close> is logged, calls made by payees included. A hash that
  is spent stays spent through every run, no further withdrawal with it is logged, and a
  \<open>withdraw\<close> with it reverts in every state, for every verifier, proof, root and
  payee. A successful \<open>withdraw\<close> finds \<open>h\<close> unspent, leaves it spent and logs
  exactly one withdrawal; in every state \<open>u\<close> that a later run reaches, the replay of
  the call to the same recipient, with any proof and root, reverts with
  \<open>Nullifier used\<close> unless the contract is paused, and a \<open>withdraw\<close> with \<open>h\<close> to
  any recipient reverts with the error of its first failing check, which is
  \<open>Nullifier used\<close> past the pause and the check of the recipient.
\<close>

theorem nullifier_spent_once:
  "withdrawn h (events (run V (constructor deployer verifier_address) txs)) \<le> 1 \<and>
   (nullifiers s h \<longrightarrow>
      nullifiers (run V s txs) h \<and>
      withdrawn h (events (run V s txs)) = withdrawn h (events s) \<and>
      withdraw V callee s pf root h r =
        Inl (Error (if paused s then ''Pausable: paused''
                    else if status s = ENTERED then ''ReentrancyGuard: reentrant call''
                    else if r = 0 then ''Invalid recipient''
                    else ''Nullifier used''))) \<and>
   (exec V s sender (Call_withdraw ctxs returns pf root h r) = Inr s' \<longrightarrow>
      \<not> nullifiers s h \<and> nullifiers s' h \<and>
      withdrawn h (events s') = withdrawn h (events s) + 1 \<and>
      nullifiers (run V s' txs) h \<and>
      withdrawn h (events (run V s' txs)) = withdrawn h (events s') \<and>
      (\<not> paused (run V s' txs) \<longrightarrow>
         withdraw V callee' (run V s' txs) pf' root' h r = Inl (Error ''Nullifier used'')) \<and>
      withdraw V callee' (run V s' txs) pf' root' h r' =
        Inl (Error (if paused (run V s' txs) then ''Pausable: paused''
                    else if r' = 0 then ''Invalid recipient''
                    else ''Nullifier used'')))"
proof -
  have 1: "withdrawn h (events (run V (constructor deployer verifier_address) txs)) \<le> 1"
    by (rule run_withdrawn_le_1)
  have 2: "nullifiers (run V s txs) h \<and>
      withdrawn h (events (run V s txs)) = withdrawn h (events s) \<and>
      withdraw V callee s pf root h r =
        Inl (Error (if paused s then ''Pausable: paused''
                    else if status s = ENTERED then ''ReentrancyGuard: reentrant call''
                    else if r = 0 then ''Invalid recipient''
                    else ''Nullifier used''))"
    if "nullifiers s h"
    using that by (simp add: run_nullifiers_mono run_withdrawn withdraw_spent)
  have 3: "\<not> nullifiers s h \<and> nullifiers s' h \<and>
      withdrawn h (events s') = withdrawn h (events s) + 1 \<and>
      nullifiers (run V s' txs) h \<and>
      withdrawn h (events (run V s' txs)) = withdrawn h (events s') \<and>
      (\<not> paused (run V s' txs) \<longrightarrow>
         withdraw V callee' (run V s' txs) pf' root' h r = Inl (Error ''Nullifier used'')) \<and>
      withdraw V callee' (run V s' txs) pf' root' h r' =
        Inl (Error (if paused (run V s' txs) then ''Pausable: paused''
                    else if r' = 0 then ''Invalid recipient''
                    else ''Nullifier used''))"
    if ok: "exec V s sender (Call_withdraw ctxs returns pf root h r) = Inr s'"
  proof -
    let ?t = "s\<lparr> nullifiers := (nullifiers s)(h := True), status := ENTERED,
                 balance := balance s - DEPOSIT_AMOUNT,
                 credited := (credited s)(r := credited s r + DEPOSIT_AMOUNT) \<rparr>"
    let ?callee = "\<lambda>u. if returns then Some (run V u ctxs) else None"
    from ok have w: "withdraw V ?callee s pf root h r = Inr s'" by simp
    from withdraw_Inr [OF w] obtain u where fresh: "\<not> nullifiers s h" and r: "r \<noteq> 0"
      and u: "?callee ?t = Some u"
      and s': "s' = u\<lparr> status := NOT_ENTERED,
                       events := events u @ [Withdrawal r DEPOSIT_AMOUNT h] \<rparr>"
      by blast
    from u have "u = run V ?t ctxs" by (simp split: if_splits)
    then have "nullifiers u h" "withdrawn h (events u) = withdrawn h (events ?t)"
      by (simp_all add: run_nullifiers_mono run_withdrawn)
    then have spent: "nullifiers s' h"
      and one: "withdrawn h (events s') = withdrawn h (events s) + 1"
      by (simp_all add: s')
    have st: "status s' = NOT_ENTERED" by (simp add: s')
    let ?u = "run V s' txs"
    have a: "nullifiers ?u h" using spent by (rule run_nullifiers_mono)
    have b: "withdrawn h (events ?u) = withdrawn h (events s')" using spent by (rule run_withdrawn)
    have c: "status ?u = NOT_ENTERED" using st by (simp add: run_status)
    have d: "withdraw V callee' ?u pf' root' h x =
        Inl (Error (if paused ?u then ''Pausable: paused''
                    else if x = 0 then ''Invalid recipient''
                    else ''Nullifier used''))" for x
      using withdraw_spent [OF a, of V callee' pf' root' x] c by simp
    from fresh spent one a b d [of r'] d [of r] r show ?thesis by simp
  qed
  from 1 2 3 show ?thesis by blast
qed

theorem nullifier_spent_once_witness:
  "exec placeholder_verifier funded 3 (Call_withdraw [] True zero_proof 0 7 0xABC)
     = Inr after_withdrawal \<and>
   \<not> nullifiers funded 7 \<and>
   nullifiers after_withdrawal 7 \<and>
   withdrawn 7 (events after_withdrawal) = withdrawn 7 (events funded) + 1 \<and>
   nullifiers (run placeholder_verifier after_withdrawal [(3, Call_deposit 6 DEPOSIT_AMOUNT 1)]) 7 \<and>
   withdraw placeholder_verifier accepts
       (run placeholder_verifier after_withdrawal [(3, Call_deposit 6 DEPOSIT_AMOUNT 1)])
       zero_proof 0 7 0xABC
     = Inl (Error ''Nullifier used'') \<and>
   withdraw reverting_verifier accepts after_withdrawal zero_proof 1 7 0xABC
     = Inl (Error ''Nullifier used'')"
proof -
  let ?txs = "[(3, Call_deposit 6 DEPOSIT_AMOUNT 1)] :: (address \<times> call) list"
  have ok: "exec placeholder_verifier funded 3 (Call_withdraw [] True zero_proof 0 7 0xABC)
      = Inr after_withdrawal"
    by (rule funded_exec_withdraw)
  have unpaused: "\<not> paused (run placeholder_verifier after_withdrawal ?txs)"
    by (simp add: after_withdrawal_eq deposit_def)
  have a: "nullifiers after_withdrawal 7" "\<not> paused after_withdrawal"
    "status after_withdrawal = NOT_ENTERED" "(0xABC :: address) \<noteq> 0"
    by (simp_all add: after_withdrawal_eq)
  from a nullifier_spent_once
    [where s = after_withdrawal and h = 7 and V = reverting_verifier and callee = accepts
       and pf = zero_proof and root = 1 and r = "0xABC"]
  have 2: "withdraw reverting_verifier accepts after_withdrawal zero_proof 1 7 0xABC
     = Inl (Error ''Nullifier used'')"
    by simp
  from ok unpaused nullifier_spent_once
    [where V = placeholder_verifier and s = funded and sender = 3 and ctxs = "[]"
       and returns = True and pf = zero_proof and root = 0 and h = 7 and r = "0xABC"
       and s' = after_withdrawal and txs = ?txs and callee' = accepts and pf' = zero_proof
       and root' = 0 and r' = "0xABC"]
  have 3: "\<not> nullifiers funded 7" "nullifiers after_withdrawal 7"
    "withdrawn 7 (events after_withdrawal) = withdrawn 7 (events funded) + 1"
    "nullifiers (run placeholder_verifier after_withdrawal ?txs) 7"
    "withdraw placeholder_verifier accepts (run placeholder_verifier after_withdrawal ?txs)
       zero_proof 0 7 0xABC = Inl (Error ''Nullifier used'')"
    by simp_all
  from ok 2 3 show ?thesis by simp
qed

subsection \<open>C2: what a deposit records\<close>

text \<open>
  Claim C2 as the specification states it: after every successful deposit the root
  history of the post-state is that of the pre-state extended by one new root. It fails
  on the contract: \<open>deposit\<close> writes \<open>commitments\<close>, the balance and the log and nothing
  else, so after the first deposit into the deployed contract the root history is still
  the genesis root alone.
\<close>

theorem deposit_records_no_root:
  "map_sum id merkleRoots (deposit deployed 5 DEPOSIT_AMOUNT 0) = Inr (merkleRoots deployed) \<and>
   merkleRoots deployed = [0]"
  by (simp add: deposit_def deployed_def constructor_def)

text \<open>
  Claim C2, amended: a successful \<open>deposit\<close> records the commitment as present and
  leaves the root history, and so the validity of every root, as it was: it changes
  \<open>commitments\<close>, the balance and the log and nothing else. A root is recorded by
  \<open>addMerkleRoot\<close>, which succeeds exactly when the owner calls it and extends the
  history by exactly the root it is given.
\<close>

theorem deposit_keeps_roots:
  "(deposit s c v t = Inr s' \<longrightarrow>
      commitments s' c \<and> merkleRoots s' = merkleRoots s \<and> isValidRoot s' = isValidRoot s \<and>
      s' = s\<lparr> commitments := (commitments s)(c := True),
              balance := balance s + v,
              events := events s @ [Deposit c v t] \<rparr>) \<and>
   (succeeded (addMerkleRoot s sender newRoot) \<longleftrightarrow> sender = owner s) \<and>
   (addMerkleRoot s sender newRoot = Inr s' \<longrightarrow>
      sender = owner s \<and> merkleRoots s' = merkleRoots s @ [newRoot])"
proof -
  have "commitments s' c \<and> merkleRoots s' = merkleRoots s \<and> isValidRoot s' = isValidRoot s \<and>
      s' = s\<lparr> commitments := (commitments s)(c := True),
              balance := balance s + v,
              events := events s @ [Deposit c v t] \<rparr>"
    if "deposit s c v t = Inr s'"
    using that by (auto simp: deposit_def isValidRoot_def fun_eq_iff split: if_splits)
  moreover have "succeeded (addMerkleRoot s sender newRoot) \<longleftrightarrow> sender = owner s"
    by (auto simp: addMerkleRoot_def)
  moreover have "sender = owner s \<and> merkleRoots s' = merkleRoots s @ [newRoot]"
    if "addMerkleRoot s sender newRoot = Inr s'"
    using that by (auto simp: addMerkleRoot_def split: if_splits)
  ultimately show ?thesis by blast
qed

theorem deposit_keeps_roots_witness:
  "deposit deployed 5 DEPOSIT_AMOUNT 0 = Inr funded \<and>
   commitments funded 5 \<and>
   merkleRoots funded = merkleRoots deployed \<and>
   addMerkleRoot deployed 1 9
     = Inr (deployed\<lparr> merkleRoots := [0, 9],
                    events := events deployed @ [MerkleRootUpdated 9] \<rparr>) \<and>
   merkleRoots (deployed\<lparr> merkleRoots := [0, 9],
                  events := events deployed @ [MerkleRootUpdated 9] \<rparr>)
     = merkleRoots deployed @ [9] \<and>
   (1 :: address) = owner deployed"
proof -
  let ?s' = "deployed\<lparr> merkleRoots := [0, 9],
                events := events deployed @ [MerkleRootUpdated 9] \<rparr>"
  have d: "deposit deployed 5 DEPOSIT_AMOUNT 0 = Inr funded"
    by (simp add: funded_eq deposit_def deployed_def constructor_def)
  have a: "addMerkleRoot deployed 1 9 = Inr ?s'"
    by (simp add: addMerkleRoot_def deployed_def constructor_def)
  show ?thesis
    using d a
      deposit_keeps_roots
        [where s = deployed and c = 5 and v = DEPOSIT_AMOUNT and t = 0 and s' = funded]
      deposit_keeps_roots
        [where s = deployed and s' = ?s' and sender = 1 and newRoot = 9]
    by simp
qed

subsection \<open>C3: the order of the checks of withdraw\<close>

text \<open>
  Claim C3: the modifiers \<open>whenNotPaused\<close> and \<open>nonReentrant\<close> run before the body of
  \<open>withdraw\<close>; in a call that passes them the checks happen in the order recipient,
  nullifier, root, proof, and the call reverts with the error of the first check that
  fails. The first three results hold for every verifier \<open>V'\<close>, also one that reverts:
  a null recipient, a spent nullifier and a root that was never recorded are answered
  without the verifier, and an unknown root gives \<open>Invalid root\<close> also when the proof
  would verify. When all four checks pass only the transfer can still fail.
\<close>

theorem withdraw_checks_in_order:
  "(paused s \<longrightarrow> withdraw V' recv s pf root h r = Inl (Error ''Pausable: paused'')) \<and>
   (\<not> paused s \<and> status s = ENTERED \<longrightarrow>
      withdraw V' recv s pf root h r = Inl (Error ''ReentrancyGuard: reentrant call'')) \<and>
   (\<not> paused s \<and> status s = NOT_ENTERED \<longrightarrow>
      (r = 0 \<longrightarrow> withdraw V' recv s pf root h r = Inl (Error ''Invalid recipient'')) \<and>
      (r \<noteq> 0 \<and> nullifiers s h \<longrightarrow>
         withdraw V' recv s pf root h r = Inl (Error ''Nullifier used'')) \<and>
      (r \<noteq> 0 \<and> \<not> nullifiers s h \<and> \<not> isValidRoot s root \<longrightarrow>
         withdraw V' recv s pf root h r = Inl (Error ''Invalid root'')) \<and>
      (r \<noteq> 0 \<and> \<not> nullifiers s h \<and> isValidRoot s root \<and>
       V pf (inputs root h r) = Inr False \<longrightarrow>
         withdraw V recv s pf root h r = Inl (Error ''Invalid proof'')) \<and>
      (r \<noteq> 0 \<and> \<not> nullifiers s h \<and> isValidRoot s root \<and>
       V pf (inputs root h r) = Inr True \<longrightarrow>
         withdraw V recv s pf root h r = Inl (Error ''Transfer failed'') \<or>
         succeeded (withdraw V recv s pf root h r)))"
proof -
  have "status s = NOT_ENTERED \<or> status s = ENTERED"
    by (cases "status s") simp_all
  then show ?thesis
    by (auto simp: withdraw_def split: option.splits)
qed

theorem withdraw_checks_in_order_witness:
  "paused paused_mixer \<and>
   withdraw placeholder_verifier accepts paused_mixer zero_proof 0 7 0
     = Inl (Error ''Pausable: paused'') \<and>
   withdraw placeholder_verifier accepts (funded\<lparr> status := ENTERED \<rparr>) zero_proof 0 7 0
     = Inl (Error ''ReentrancyGuard: reentrant call'') \<and>
   \<not> paused funded \<and> status funded = NOT_ENTERED \<and>
   withdraw reverting_verifier accepts funded zero_proof 0 7 0 = Inl (Error ''Invalid recipient'') \<and>
   nullifiers after_withdrawal 7 \<and>
   withdraw reverting_verifier accepts after_withdrawal zero_proof 1 7 0xABC
     = Inl (Error ''Nullifier used'') \<and>
   \<not> isValidRoot funded 1 \<and>
   withdraw placeholder_verifier accepts funded zero_proof 1 7 0xABC = Inl (Error ''Invalid root'') \<and>
   withdraw reverting_verifier accepts funded zero_proof 1 7 0xABC = Inl (Error ''Invalid root'') \<and>
   withdraw (\<lambda>pf ins. Inr False) accepts funded zero_proof 0 7 0xABC = Inl (Error ''Invalid proof'') \<and>
   succeeded (withdraw placeholder_verifier accepts funded zero_proof 0 7 0xABC)"
proof -
  have f: "\<not> paused funded" "status funded = NOT_ENTERED" "\<not> nullifiers funded 7"
    "\<not> isValidRoot funded 1" "isValidRoot funded 0"
    by (simp_all add: funded_eq isValidRoot_set)
  have a: "\<not> paused after_withdrawal" "status after_withdrawal = NOT_ENTERED"
    "nullifiers after_withdrawal 7"
    by (simp_all add: after_withdrawal_eq)
  have nz: "(0xABC :: address) \<noteq> 0" by simp
  note w = withdraw_checks_in_order
  from f w [where s = funded and r = 0 and V' = reverting_verifier and recv = accepts
      and pf = zero_proof and root = 0 and h = 7]
  have 1: "withdraw reverting_verifier accepts funded zero_proof 0 7 0
      = Inl (Error ''Invalid recipient'')"
    by simp
  from w [where s = after_withdrawal and r = "0xABC" and V' = reverting_verifier and recv = accepts
      and pf = zero_proof and root = 1 and h = 7] a nz
  have 2: "withdraw reverting_verifier accepts after_withdrawal zero_proof 1 7 0xABC
     = Inl (Error ''Nullifier used'')"
    by simp
  from w [where s = funded and r = "0xABC" and V' = placeholder_verifier and recv = accepts
      and pf = zero_proof and root = 1 and h = 7] f nz
  have 3: "withdraw placeholder_verifier accepts funded zero_proof 1 7 0xABC
      = Inl (Error ''Invalid root'')"
    by simp
  from w [where s = funded and r = "0xABC" and V' = reverting_verifier and recv = accepts
      and pf = zero_proof and root = 1 and h = 7] f nz
  have 4: "withdraw reverting_verifier accepts funded zero_proof 1 7 0xABC
      = Inl (Error ''Invalid root'')"
    by simp
  from w [where s = funded and r = "0xABC" and V = "\<lambda>pf ins. Inr False" and recv = accepts
      and pf = zero_proof and root = 0 and h = 7] f nz
  have 5: "withdraw (\<lambda>pf ins. Inr False) accepts funded zero_proof 0 7 0xABC
      = Inl (Error ''Invalid proof'')"
    by simp
  have 6: "succeeded (withdraw placeholder_verifier accepts funded zero_proof 0 7 0xABC)"
    by (simp add: funded_withdraw)
  have p: "paused paused_mixer"
    by (simp add: paused_mixer_eq)
  from p w [where s = paused_mixer and r = 0 and V' = placeholder_verifier and recv = accepts
      and pf = zero_proof and root = 0 and h = 7]
  have 7: "withdraw placeholder_verifier accepts paused_mixer zero_proof 0 7 0
     = Inl (Error ''Pausable: paused'')"
    by simp
  from f w [where s = "funded\<lparr> status := ENTERED \<rparr>" and r = 0 and V' = placeholder_verifier
      and recv = accepts and pf = zero_proof and root = 0 and h = 7]
  have 8: "withdraw placeholder_verifier accepts (funded\<lparr> status := ENTERED \<rparr>) zero_proof 0 7 0
     = Inl (Error ''ReentrancyGuard: reentrant call'')"
    by simp
  from f a p 1 2 3 4 5 6 7 8 show ?thesis by simp
qed

subsection \<open>C4: the nullifier is spent before the transfer\<close>

text \<open>
  Claim C4: let \<open>t\<close> be the state \<open>s\<close> with the nullifier hash marked spent, the guard
  entered and the amount moved to the recipient. The nullifier hash is spent in \<open>t\<close>,
  and the code of the recipient starts in the state \<open>t\<close> and in no other: \<open>withdraw\<close>
  gives the same result with a callee that is only defined at \<open>t\<close>. When \<open>withdraw\<close>
  succeeds the callee has returned in some state \<open>u\<close>, and the call ends in \<open>u\<close> but for
  the guard, which is released, and the log, which gets the event \<open>Withdrawal\<close>:
  after the transfer \<open>withdraw\<close> changes neither the nullifiers nor the commitments nor
  the root history, nor the pause, the owner or the balances. Whatever calls the
  recipient makes back into the contract from \<open>t\<close>, the nullifier hash stays spent, no
  withdrawal with it is logged and the guard stays entered, so that every \<open>withdraw\<close>
  and \<open>deposit\<close> among them reverts; for such a recipient the call ends in the state
  that its calls lead to from \<open>t\<close>, with the nullifier hash spent.
\<close>

theorem withdraw_spends_before_transfer:
  "(let t = s\<lparr> nullifiers := (nullifiers s)(h := True),
                status := ENTERED,
                balance := balance s - DEPOSIT_AMOUNT,
                credited := (credited s)(r := credited s r + DEPOSIT_AMOUNT) \<rparr>
    in nullifiers t h \<and>
       withdraw V callee s pf root h r
         = withdraw V (\<lambda>u. if u = t then callee t else None) s pf root h r \<and>
       (withdraw V callee s pf root h r = Inr s' \<longrightarrow>
          (\<exists>u. callee t = Some u \<and>
               s' = u\<lparr> status := NOT_ENTERED,
                       events := events u @ [Withdrawal r DEPOSIT_AMOUNT h] \<rparr> \<and>
               nullifiers s' = nullifiers u \<and> commitments s' = commitments u \<and>
               merkleRoots s' = merkleRoots u \<and> paused s' = paused u \<and>
               owner s' = owner u \<and> balance s' = balance u \<and> credited s' = credited u)) \<and>
       nullifiers (run V t txs) h \<and>
       withdrawn h (events (run V t txs)) = withdrawn h (events s) \<and>
       status (run V t txs) = ENTERED \<and>
       \<not> succeeded (withdraw V2 callee2 (run V t txs) pf2 root2 h2 r2) \<and>
       \<not> succeeded (deposit (run V t txs) c v ts) \<and>
       (exec V s sender (Call_withdraw txs returns pf root h r) = Inr s' \<longrightarrow>
          returns \<and> nullifiers s' h \<and>
          s' = (run V t txs)\<lparr> status := NOT_ENTERED,
                  events := events (run V t txs) @ [Withdrawal r DEPOSIT_AMOUNT h] \<rparr>))"
proof -
  let ?t = "s\<lparr> nullifiers := (nullifiers s)(h := True),
                status := ENTERED,
                balance := balance s - DEPOSIT_AMOUNT,
                credited := (credited s)(r := credited s r + DEPOSIT_AMOUNT) \<rparr>"
  let ?u = "run V ?t txs"
  have 1: "nullifiers ?t h" by simp
  have 2: "withdraw V callee s pf root h r
         = withdraw V (\<lambda>u. if u = ?t then callee ?t else None) s pf root h r"
    by (simp add: withdraw_def call_value_def split: sum.splits)
  have 3: "\<exists>u. callee ?t = Some u \<and>
               s' = u\<lparr> status := NOT_ENTERED,
                       events := events u @ [Withdrawal r DEPOSIT_AMOUNT h] \<rparr> \<and>
               nullifiers s' = nullifiers u \<and> commitments s' = commitments u \<and>
               merkleRoots s' = merkleRoots u \<and> paused s' = paused u \<and>
               owner s' = owner u \<and> balance s' = balance u \<and> credited s' = credited u"
    if "withdraw V callee s pf root h r = Inr s'"
    using withdraw_Inr [OF that] by auto
  have 4: "nullifiers ?u h" "withdrawn h (events ?u) = withdrawn h (events s)"
    "status ?u = ENTERED"
    using run_nullifiers_mono [OF 1, of V txs] run_withdrawn [OF 1, of V txs]
    by (simp_all add: run_status)
  have 5: "\<not> succeeded (withdraw V2 callee2 ?u pf2 root2 h2 r2)"
    "\<not> succeeded (deposit ?u c v ts)"
    using 4(3) by (simp_all add: withdraw_def deposit_def)
  have 6: "returns \<and> nullifiers s' h \<and>
          s' = ?u\<lparr> status := NOT_ENTERED,
                  events := events ?u @ [Withdrawal r DEPOSIT_AMOUNT h] \<rparr>"
    if "exec V s sender (Call_withdraw txs returns pf root h r) = Inr s'"
  proof -
    from that have "withdraw V (\<lambda>u. if returns then Some (run V u txs) else None) s pf root h r
        = Inr s'"
      by simp
    from withdraw_Inr [OF this] 4(1) show ?thesis
      by (auto split: if_splits)
  qed
  from 1 2 3 4 5 6 show ?thesis unfolding Let_def by blast
qed

text \<open>
  The witness has the owner, account 1, as the recipient: while it is paid it pauses the
  contract and tries a second \<open>withdraw\<close>, which reverts; the call ends paused, with
  the nullifier hash 7 spent.
\<close>

theorem withdraw_spends_before_transfer_witness:
  "withdraw placeholder_verifier accepts funded zero_proof 0 7 0xABC = Inr after_withdrawal \<and>
   nullifiers after_withdrawal =
     nullifiers (funded\<lparr> nullifiers := (nullifiers funded)(7 := True),
                status := ENTERED,
                balance := balance funded - DEPOSIT_AMOUNT,
                credited := (credited funded)(0xABC := credited funded 0xABC + DEPOSIT_AMOUNT) \<rparr>) \<and>
   succeeded (exec placeholder_verifier funded 3
     (Call_withdraw [(1, Call_pause), (1, Call_withdraw [] True zero_proof 0 8 1)] True
        zero_proof 0 7 1)) \<and>
   map_sum id paused (exec placeholder_verifier funded 3
     (Call_withdraw [(1, Call_pause), (1, Call_withdraw [] True zero_proof 0 8 1)] True
        zero_proof 0 7 1)) = Inr True \<and>
   map_sum id (\<lambda>s'. nullifiers s' 7) (exec placeholder_verifier funded 3
     (Call_withdraw [(1, Call_pause), (1, Call_withdraw [] True zero_proof 0 8 1)] True
        zero_proof 0 7 1)) = Inr True \<and>
   map_sum id (\<lambda>s'. nullifiers s' 8) (exec placeholder_verifier funded 3
     (Call_withdraw [(1, Call_pause), (1, Call_withdraw [] True zero_proof 0 8 1)] True
        zero_proof 0 7 1)) = Inr False"
proof -
  let ?txs = "[(1, Call_pause), (1, Call_withdraw [] True zero_proof 0 8 1)]
    :: (address \<times> call) list"
  let ?t = "funded\<lparr> nullifiers := (nullifiers funded)(7 := True),
                status := ENTERED,
                balance := balance funded - DEPOSIT_AMOUNT,
                credited := (credited funded)(1 := credited funded 1 + DEPOSIT_AMOUNT) \<rparr>"
  let ?u = "funded\<lparr> nullifiers := (nullifiers funded)(7 := True),
                status := ENTERED,
                balance := balance funded - DEPOSIT_AMOUNT,
                credited := (credited funded)(1 := credited funded 1 + DEPOSIT_AMOUNT),
                paused := True,
                events := events funded @ [Paused 1] \<rparr>"
  have r: "run placeholder_verifier ?t ?txs = ?u"
    by (simp add: funded_eq pause_def withdraw_def)
  have e: "exec placeholder_verifier funded 3 (Call_withdraw ?txs True zero_proof 0 7 1)
    = Inr (?u\<lparr> status := NOT_ENTERED,
               events := events ?u @ [Withdrawal 1 DEPOSIT_AMOUNT 7] \<rparr>)"
    by (simp add: r withdraw_def call_value_def funded_eq isValidRoot_set
        placeholder_verifier_def pause_def DEPOSIT_AMOUNT_def)
  have n8: "\<not> nullifiers ?u 8" by (simp add: funded_eq)
  from e r n8 withdraw_spends_before_transfer
    [where s = funded and h = 7 and r = 1 and V = placeholder_verifier and txs = ?txs
       and returns = True and pf = zero_proof and root = 0 and sender = 3
       and s' = "?u\<lparr> status := NOT_ENTERED,
                      events := events ?u @ [Withdrawal 1 DEPOSIT_AMOUNT 7] \<rparr>"]
  have 1: "succeeded (exec placeholder_verifier funded 3
        (Call_withdraw ?txs True zero_proof 0 7 1))"
    "map_sum id paused (exec placeholder_verifier funded 3
        (Call_withdraw ?txs True zero_proof 0 7 1)) = Inr True"
    "map_sum id (\<lambda>s'. nullifiers s' 7) (exec placeholder_verifier funded 3
        (Call_withdraw ?txs True zero_proof 0 7 1)) = Inr True"
    "map_sum id (\<lambda>s'. nullifiers s' 8) (exec placeholder_verifier funded 3
        (Call_withdraw ?txs True zero_proof 0 7 1)) = Inr False"
    by (simp_all add: Let_def)
  from funded_withdraw withdraw_spends_before_transfer
      [where s = funded and h = 7 and r = "0xABC" and V = placeholder_verifier
         and callee = accepts and pf = zero_proof and root = 0 and s' = after_withdrawal]
  have 2: "nullifiers after_withdrawal =
     nullifiers (funded\<lparr> nullifiers := (nullifiers funded)(7 := True),
                status := ENTERED,
                balance := balance funded - DEPOSIT_AMOUNT,
                credited := (credited funded)(0xABC := credited funded 0xABC + DEPOSIT_AMOUNT) \<rparr>)"
    by (auto simp: Let_def accepts_def)
  from funded_withdraw 1 2 show ?thesis by simp
qed

subsection \<open>C5: the number of deposits\<close>

text \<open>
  Claim C5 as the specification states it: the accumulator holds \<open>2 ^ 20\<close> commitments,
  and the deposit that would insert one more fails with \<open>CapacityExceeded\<close>. It fails
  on the contract, which keeps no leaf index and has no such error: after the deposits of
  the \<open>2 ^ 20\<close> commitments \<open>0, ..., 2 ^ 20 - 1\<close> into the deployed contract, the deposit of
  the commitment \<open>2 ^ 20\<close> succeeds.
\<close>

theorem deposit_beyond_capacity:
  "succeeded (deposit_upto deployed (2 ^ 20)) \<and> succeeded (deposit_upto deployed (2 ^ 20 + 1))"
proof -
  have d: "\<not> paused deployed" "status deployed = NOT_ENTERED" "\<And>c. \<not> commitments deployed c"
    by (simp_all add: deployed_def constructor_def)
  have "(2::nat) ^ 20 \<le> 2 ^ 256" "(2::nat) ^ 20 + 1 \<le> 2 ^ 256"
    by simp_all
  with deposit_upto_state [OF d, of "2 ^ 20"] deposit_upto_state [OF d, of "2 ^ 20 + 1"]
  show ?thesis by auto
qed

text \<open>
  Claim C5, amended: the contract has no capacity. For every \<open>n\<close> up to \<open>2 ^ 256\<close>, the
  number of values of \<open>bytes32\<close>, \<open>n\<close> deposits of distinct commitments into a new
  contract all succeed and leave \<open>n\<close> commitments and \<open>n\<close> times the amount; and
  in any state, however many commitments it holds, the deposit of a commitment that is
  not present, with the right amount, succeeds when the contract is not paused. (The
  depth 20 is a parameter of the withdrawal circuit only.)
\<close>

theorem deposit_without_capacity:
  "(n \<le> 2 ^ 256 \<longrightarrow>
      (\<exists>s'. deposit_upto (constructor deployer verifier_address) n = Inr s' \<and>
            commitments s' = (\<lambda>c. unat c < n) \<and>
            balance s' = n * DEPOSIT_AMOUNT)) \<and>
   (\<not> paused s \<and> status s = NOT_ENTERED \<and> \<not> commitments s c \<longrightarrow>
      succeeded (deposit s c DEPOSIT_AMOUNT t))"
proof -
  have d: "\<not> paused (constructor deployer verifier_address)"
    "status (constructor deployer verifier_address) = NOT_ENTERED"
    "\<And>c. \<not> commitments (constructor deployer verifier_address) c"
    "balance (constructor deployer verifier_address) = 0"
    by (simp_all add: constructor_def)
  have "\<exists>s'. deposit_upto (constructor deployer verifier_address) n = Inr s' \<and>
            commitments s' = (\<lambda>c. unat c < n) \<and>
            balance s' = n * DEPOSIT_AMOUNT" if "n \<le> 2 ^ 256"
    using deposit_upto_state [OF d(1-3) that] d(4) by auto
  moreover have "succeeded (deposit s c DEPOSIT_AMOUNT t)"
    if "\<not> paused s \<and> status s = NOT_ENTERED \<and> \<not> commitments s c"
    using that by (simp add: deposit_def)
  ultimately show ?thesis by blast
qed

theorem deposit_without_capacity_witness:
  "(2 :: nat) ^ 20 + 1 \<le> 2 ^ 256 \<and>
   succeeded (deposit_upto (constructor 1 2) (2 ^ 20 + 1)) \<and>
   \<not> paused funded \<and> status funded = NOT_ENTERED \<and> \<not> commitments funded 6 \<and>
   succeeded (deposit funded 6 DEPOSIT_AMOUNT 1)"
proof -
  have n: "(2 :: nat) ^ 20 + 1 \<le> 2 ^ 256" by simp
  have f: "\<not> paused funded" "status funded = NOT_ENTERED" "\<not> commitments funded 6"
    by (simp_all add: funded_eq)
  from deposit_without_capacity [of "2 ^ 20 + 1" 1 2 funded 6 1] n f
  show ?thesis by auto
qed

subsection \<open>C6: deposit\<close>

text \<open>
  Claim C6: \<open>deposit\<close> succeeds if and only if the contract is not paused (and the call
  is not a re-entrant one, as no call from outside is), the value is \<open>DEPOSIT_AMOUNT\<close>
  and the commitment is not present. The modifiers come first; behind them the call
  reverts with \<open>Incorrect deposit amount\<close> when the value differs, and with
  \<open>Commitment exists\<close> when the value is right and the commitment is present. On
  success the commitment is present, the balance has grown by exactly the value and
  nothing else but the log has changed; the commitment stays present through every
  later run of calls, and a later deposit of it, with the right amount into the
  unpaused contract, reverts with \<open>Commitment exists\<close>.
\<close>

theorem deposit_correct:
  "(succeeded (deposit s c v t) \<longleftrightarrow>
      \<not> paused s \<and> status s = NOT_ENTERED \<and> v = DEPOSIT_AMOUNT \<and> \<not> commitments s c) \<and>
   (paused s \<longrightarrow> deposit s c v t = Inl (Error ''Pausable: paused'')) \<and>
   (\<not> paused s \<and> status s = ENTERED \<longrightarrow>
      deposit s c v t = Inl (Error ''ReentrancyGuard: reentrant call'')) \<and>
   (\<not> paused s \<and> status s = NOT_ENTERED \<and> v \<noteq> DEPOSIT_AMOUNT \<longrightarrow>
      deposit s c v t = Inl (Error ''Incorrect deposit amount'')) \<and>
   (\<not> paused s \<and> status s = NOT_ENTERED \<and> v = DEPOSIT_AMOUNT \<and> commitments s c \<longrightarrow>
      deposit s c v t = Inl (Error ''Commitment exists'')) \<and>
   (deposit s c v t = Inr s' \<longrightarrow>
      s' = s\<lparr> commitments := (commitments s)(c := True),
              balance := balance s + v,
              events := events s @ [Deposit c v t] \<rparr> \<and>
      commitments s' c \<and> balance s' = balance s + v \<and>
      commitments (run V s' txs) c \<and>
      (\<not> paused (run V s' txs) \<longrightarrow>
         deposit (run V s' txs) c DEPOSIT_AMOUNT t' = Inl (Error ''Commitment exists'')))"
proof -
  have st: "status s = NOT_ENTERED \<or> status s = ENTERED"
    by (cases "status s") simp_all
  have later: "commitments (run V s' txs) c \<and>
       (\<not> paused (run V s' txs) \<longrightarrow>
          deposit (run V s' txs) c DEPOSIT_AMOUNT t' = Inl (Error ''Commitment exists''))"
    if ok: "deposit s c v t = Inr s'"
  proof -
    from ok have "commitments s' c" "status s' = NOT_ENTERED"
      using st by (auto simp: deposit_def split: if_splits)
    then have "commitments (run V s' txs) c" "status (run V s' txs) = NOT_ENTERED"
      by (simp_all add: run_commitments_mono run_status)
    then show ?thesis by (simp add: deposit_def)
  qed
  have now: "s' = s\<lparr> commitments := (commitments s)(c := True),
               balance := balance s + v,
               events := events s @ [Deposit c v t] \<rparr> \<and>
       commitments s' c \<and> balance s' = balance s + v"
    if "deposit s c v t = Inr s'"
    using that by (auto simp: deposit_def split: if_splits)
  have checks: "(succeeded (deposit s c v t) \<longleftrightarrow>
      \<not> paused s \<and> status s = NOT_ENTERED \<and> v = DEPOSIT_AMOUNT \<and> \<not> commitments s c) \<and>
   (paused s \<longrightarrow> deposit s c v t = Inl (Error ''Pausable: paused'')) \<and>
   (\<not> paused s \<and> status s = ENTERED \<longrightarrow>
      deposit s c v t = Inl (Error ''ReentrancyGuard: reentrant call'')) \<and>
   (\<not> paused s \<and> status s = NOT_ENTERED \<and> v \<noteq> DEPOSIT_AMOUNT \<longrightarrow>
      deposit s c v t = Inl (Error ''Incorrect deposit amount'')) \<and>
   (\<not> paused s \<and> status s = NOT_ENTERED \<and> v = DEPOSIT_AMOUNT \<and> commitments s c \<longrightarrow>
      deposit s c v t = Inl (Error ''Commitment exists''))"
    using st by (auto simp: deposit_def)
  from checks now later show ?thesis by blast
qed

theorem deposit_correct_witness:
  "paused paused_mixer \<and>
   deposit paused_mixer 6 DEPOSIT_AMOUNT 1 = Inl (Error ''Pausable: paused'') \<and>
   deposit (funded\<lparr> status := ENTERED \<rparr>) 6 DEPOSIT_AMOUNT 1
     = Inl (Error ''ReentrancyGuard: reentrant call'') \<and>
   status deployed = NOT_ENTERED \<and>
   succeeded (deposit deployed 5 DEPOSIT_AMOUNT 0) \<and>
   deposit deployed 5 (DEPOSIT_AMOUNT div 2) 0 = Inl (Error ''Incorrect deposit amount'') \<and>
   deposit deployed 5 DEPOSIT_AMOUNT 0 = Inr funded \<and>
   balance funded = balance deployed + DEPOSIT_AMOUNT \<and>
   commitments funded 5 \<and>
   status funded = NOT_ENTERED \<and>
   deposit funded 5 DEPOSIT_AMOUNT 1 = Inl (Error ''Commitment exists'') \<and>
   deposit after_withdrawal 5 DEPOSIT_AMOUNT 1 = Inl (Error ''Commitment exists'')"
proof -
  have d: "status deployed = NOT_ENTERED" "\<not> paused deployed" "\<not> commitments deployed 5"
    "DEPOSIT_AMOUNT div 2 \<noteq> DEPOSIT_AMOUNT"
    by (simp_all add: deployed_def constructor_def DEPOSIT_AMOUNT_def)
  have f: "status funded = NOT_ENTERED" "\<not> paused funded" "commitments funded 5"
    by (simp_all add: funded_eq)
  have ok: "deposit deployed 5 DEPOSIT_AMOUNT 0 = Inr funded"
    by (simp add: funded_eq deposit_def deployed_def constructor_def)
  have a: "run placeholder_verifier funded [(3, Call_withdraw [] True zero_proof 0 7 0xABC)]
      = after_withdrawal"
    by (simp add: after_withdrawal_def)
  have p: "\<not> paused after_withdrawal"
    by (simp add: after_withdrawal_eq)
  note w = deposit_correct [where s = deployed and c = 5 and V = placeholder_verifier
      and s' = funded and txs = "[(3, Call_withdraw [] True zero_proof 0 7 0xABC)]"
      and t = 0 and t' = 1]
  from w [where v = DEPOSIT_AMOUNT] d ok a p
  have 1: "succeeded (deposit deployed 5 DEPOSIT_AMOUNT 0)"
    "balance funded = balance deployed + DEPOSIT_AMOUNT"
    "deposit after_withdrawal 5 DEPOSIT_AMOUNT 1 = Inl (Error ''Commitment exists'')"
    by simp_all
  from w [where v = "DEPOSIT_AMOUNT div 2"] d
  have 2: "deposit deployed 5 (DEPOSIT_AMOUNT div 2) 0 = Inl (Error ''Incorrect deposit amount'')"
    by simp
  from deposit_correct [where s = funded and c = 5 and v = DEPOSIT_AMOUNT and t = 1] f
  have 3: "deposit funded 5 DEPOSIT_AMOUNT 1 = Inl (Error ''Commitment exists'')"
    by simp
  have q: "paused paused_mixer"
    by (simp add: paused_mixer_eq)
  from q deposit_correct [where s = paused_mixer and c = 6 and v = DEPOSIT_AMOUNT and t = 1]
  have 4: "deposit paused_mixer 6 DEPOSIT_AMOUNT 1 = Inl (Error ''Pausable: paused'')"
    by simp
  from f deposit_correct
    [where s = "funded\<lparr> status := ENTERED \<rparr>" and c = 6 and v = DEPOSIT_AMOUNT and t = 1]
  have 5: "deposit (funded\<lparr> status := ENTERED \<rparr>) 6 DEPOSIT_AMOUNT 1
     = Inl (Error ''ReentrancyGuard: reentrant call'')"
    by simp
  from d f ok q 1 2 3 4 5 show ?thesis by simp
qed

subsection \<open>C7: a verifier that reverts\<close>

text \<open>
  Claim C7 as the specification states it: when the first three checks pass and the
  verifier throws, \<open>withdraw\<close> catches it and fails with \<open>Invalid proof\<close>. It fails on
  the contract: the call of the verifier stands in no \<open>try\<close> statement, so the revert
  of the verifier is the revert of \<open>withdraw\<close>.
\<close>

theorem withdraw_verifier_revert:
  "(0xABC :: address) \<noteq> 0 \<and> \<not> nullifiers funded 7 \<and> isValidRoot funded 0 \<and>
   withdraw reverting_verifier accepts funded zero_proof 0 7 0xABC
     = Inl (Error ''verifier-gte-snark-scalar-field'') \<and>
   withdraw reverting_verifier accepts funded zero_proof 0 7 0xABC
     \<noteq> Inl (Error ''Invalid proof'')"
  by (simp add: funded_eq withdraw_def isValidRoot_set reverting_verifier_def)

text \<open>
  Claim C7, amended: when the first three checks pass and the verifier reverts,
  \<open>withdraw\<close> reverts with the verifier's own error; it reverts with \<open>Invalid proof\<close>
  when the verifier returns false; in both cases the recipient is never called.
\<close>

theorem withdraw_verifier_outcomes:
  assumes "\<not> paused s" and "status s = NOT_ENTERED"
    and "r \<noteq> 0" and "\<not> nullifiers s h" and "isValidRoot s root"
  shows
   "(V pf (inputs root h r) = Inl e \<longrightarrow> withdraw V recv s pf root h r = Inl e) \<and>
    (V pf (inputs root h r) = Inr False \<longrightarrow>
       withdraw V recv s pf root h r = Inl (Error ''Invalid proof'')) \<and>
    (V pf (inputs root h r) = Inl e \<or> V pf (inputs root h r) = Inr False \<longrightarrow>
       withdraw V recv s pf root h r = withdraw V recv' s pf root h r)"
  using assms by (auto simp: withdraw_def)

theorem withdraw_verifier_outcomes_witness:
  "\<not> paused funded \<and> status funded = NOT_ENTERED \<and> (0xABC :: address) \<noteq> 0 \<and>
   \<not> nullifiers funded 7 \<and> isValidRoot funded 0 \<and>
   reverting_verifier zero_proof (inputs 0 7 0xABC) = Inl (Error ''verifier-gte-snark-scalar-field'') \<and>
   withdraw reverting_verifier accepts funded zero_proof 0 7 0xABC
     = Inl (Error ''verifier-gte-snark-scalar-field'') \<and>
   withdraw (\<lambda>pf ins. Inr False) accepts funded zero_proof 0 7 0xABC
     = Inl (Error ''Invalid proof'')"
proof -
  have f: "\<not> paused funded" "status funded = NOT_ENTERED" "(0xABC :: address) \<noteq> 0"
    "\<not> nullifiers funded 7" "isValidRoot funded 0"
    by (simp_all add: funded_eq isValidRoot_set)
  have v: "reverting_verifier zero_proof (inputs 0 7 0xABC)
      = Inl (Error ''verifier-gte-snark-scalar-field'')"
    by (simp add: reverting_verifier_def)
  from withdraw_verifier_outcomes
    [OF f, where V = reverting_verifier and pf = zero_proof
       and e = "Error ''verifier-gte-snark-scalar-field''" and recv = accepts] v
  have 1: "withdraw reverting_verifier accepts funded zero_proof 0 7 0xABC
     = Inl (Error ''verifier-gte-snark-scalar-field'')"
    by simp
  from withdraw_verifier_outcomes
    [OF f, where V = "\<lambda>pf ins. Inr False" and pf = zero_proof and recv = accepts]
  have 2: "withdraw (\<lambda>pf ins. Inr False) accepts funded zero_proof 0 7 0xABC
     = Inl (Error ''Invalid proof'')"
    by simp
  from f v 1 2 show ?thesis by simp
qed

subsection \<open>C8: the effect of withdraw\<close>

text \<open>
  Claim C8 as the specification states it: a \<open>withdraw\<close> whose four preconditions hold
  succeeds. It fails on the contract when the transfer fails: right after deployment
  the contract holds no ether, and a \<open>withdraw\<close> against the genesis root with a proof
  that the verifier accepts reverts with \<open>Transfer failed\<close>.
\<close>

theorem withdraw_transfer_fails:
  "(0xABC :: address) \<noteq> 0 \<and> \<not> nullifiers deployed 7 \<and> isValidRoot deployed 0 \<and>
   placeholder_verifier zero_proof (inputs 0 7 0xABC) = Inr True \<and>
   withdraw placeholder_verifier accepts deployed zero_proof 0 7 0xABC
     = Inl (Error ''Transfer failed'')"
  by (simp add: deployed_def constructor_def withdraw_def call_value_def isValidRoot_set
      placeholder_verifier_def DEPOSIT_AMOUNT_def)

text \<open>
  Claim C8, amended: take a \<open>withdraw\<close> that passes the modifiers and whose four
  preconditions hold, the verifier having answered true on the vector
  \<open>[root, nullifierHash, recipient]\<close>, and let \<open>t\<close> be the state with the nullifier
  hash marked spent and exactly \<open>DEPOSIT_AMOUNT\<close> moved from the balance of the contract
  to the recipient. When the contract holds less than \<open>DEPOSIT_AMOUNT\<close> or the recipient
  reverts, the call reverts with \<open>Transfer failed\<close>. Otherwise the recipient's code
  runs from \<open>t\<close>, and when it returns in the state \<open>u\<close> the call succeeds in \<open>u\<close> with
  the guard released and the event logged. For a recipient that makes no call back
  into the contract that state is \<open>s\<close> with the nullifier hash spent, the recipient
  credited with exactly \<open>DEPOSIT_AMOUNT\<close>, the balance lower by the same, the event
  logged and nothing else changed; for a recipient that makes calls back the call ends
  in the state they lead to from \<open>t\<close>, with the nullifier hash spent. Any verifier that
  answers true on that vector gives the same result.
\<close>

theorem withdraw_effect:
  assumes "\<not> paused s" and "status s = NOT_ENTERED"
    and "r \<noteq> 0" and "\<not> nullifiers s h" and "isValidRoot s root"
    and "V pf [root, h, ucast r] = Inr True"
  shows
   "(let t = s\<lparr> nullifiers := (nullifiers s)(h := True),
                 status := ENTERED,
                 balance := balance s - DEPOSIT_AMOUNT,
                 credited := (credited s)(r := credited s r + DEPOSIT_AMOUNT) \<rparr>;
         s' = s\<lparr> nullifiers := (nullifiers s)(h := True),
                  balance := balance s - DEPOSIT_AMOUNT,
                  credited := (credited s)(r := credited s r + DEPOSIT_AMOUNT),
                  events := events s @ [Withdrawal r DEPOSIT_AMOUNT h] \<rparr>
     in (balance s < DEPOSIT_AMOUNT \<or> callee t = None \<longrightarrow>
           withdraw V callee s pf root h r = Inl (Error ''Transfer failed'')) \<and>
        (DEPOSIT_AMOUNT \<le> balance s \<and> callee t = Some u \<longrightarrow>
           withdraw V callee s pf root h r
             = Inr (u\<lparr> status := NOT_ENTERED,
                        events := events u @ [Withdrawal r DEPOSIT_AMOUNT h] \<rparr>) \<and>
           nullifiers t h \<and>
           credited t r = credited s r + DEPOSIT_AMOUNT \<and>
           balance t + DEPOSIT_AMOUNT = balance s) \<and>
        (DEPOSIT_AMOUNT \<le> balance s \<and> callee t = Some t \<longrightarrow>
           withdraw V callee s pf root h r = Inr s' \<and>
           nullifiers s' h \<and>
           credited s' r = credited s r + DEPOSIT_AMOUNT \<and>
           balance s' + DEPOSIT_AMOUNT = balance s) \<and>
        (DEPOSIT_AMOUNT \<le> balance s \<longrightarrow>
           exec V s sender (Call_withdraw txs True pf root h r)
             = Inr ((run V t txs)\<lparr> status := NOT_ENTERED,
                      events := events (run V t txs) @ [Withdrawal r DEPOSIT_AMOUNT h] \<rparr>) \<and>
           nullifiers (run V t txs) h) \<and>
        (V' pf [root, h, ucast r] = Inr True \<longrightarrow>
           withdraw V' callee s pf root h r = withdraw V callee s pf root h r))"
proof -
  let ?t = "s\<lparr> nullifiers := (nullifiers s)(h := True),
                 status := ENTERED,
                 balance := balance s - DEPOSIT_AMOUNT,
                 credited := (credited s)(r := credited s r + DEPOSIT_AMOUNT) \<rparr>"
  let ?s' = "s\<lparr> nullifiers := (nullifiers s)(h := True),
                  balance := balance s - DEPOSIT_AMOUNT,
                  credited := (credited s)(r := credited s r + DEPOSIT_AMOUNT),
                  events := events s @ [Withdrawal r DEPOSIT_AMOUNT h] \<rparr>"
  have w: "withdraw W k s pf root h r =
      (if balance s < DEPOSIT_AMOUNT then Inl (Error ''Transfer failed'')
       else case k ?t of
              None \<Rightarrow> Inl (Error ''Transfer failed'')
            | Some u \<Rightarrow> Inr (u\<lparr> status := NOT_ENTERED,
                                events := events u @ [Withdrawal r DEPOSIT_AMOUNT h] \<rparr>))"
    if "W pf [root, h, ucast r] = Inr True" for W k
    using assms(1-5) that by (simp add: withdraw_def call_value_def inputs_def)
  note wV = w [of V, OF assms(6)]
  have 1: "withdraw V callee s pf root h r = Inl (Error ''Transfer failed'')"
    if "balance s < DEPOSIT_AMOUNT \<or> callee ?t = None"
    using that by (auto simp: wV)
  have 2: "withdraw V callee s pf root h r
             = Inr (u\<lparr> status := NOT_ENTERED,
                        events := events u @ [Withdrawal r DEPOSIT_AMOUNT h] \<rparr>) \<and>
           nullifiers ?t h \<and>
           credited ?t r = credited s r + DEPOSIT_AMOUNT \<and>
           balance ?t + DEPOSIT_AMOUNT = balance s"
    if "DEPOSIT_AMOUNT \<le> balance s \<and> callee ?t = Some u"
    using that by (simp add: wV)
  have 3: "withdraw V callee s pf root h r = Inr ?s' \<and>
           nullifiers ?s' h \<and>
           credited ?s' r = credited s r + DEPOSIT_AMOUNT \<and>
           balance ?s' + DEPOSIT_AMOUNT = balance s"
    if "DEPOSIT_AMOUNT \<le> balance s \<and> callee ?t = Some ?t"
    using that assms(2) by (simp add: wV)
  have 4: "exec V s sender (Call_withdraw txs True pf root h r)
             = Inr ((run V ?t txs)\<lparr> status := NOT_ENTERED,
                      events := events (run V ?t txs) @ [Withdrawal r DEPOSIT_AMOUNT h] \<rparr>) \<and>
           nullifiers (run V ?t txs) h"
    if "DEPOSIT_AMOUNT \<le> balance s"
    using that by (simp add: wV run_nullifiers_mono)
  have 5: "withdraw V' callee s pf root h r = withdraw V callee s pf root h r"
    if "V' pf [root, h, ucast r] = Inr True"
    by (simp add: wV w [of V', OF that])
  show ?thesis
    unfolding Let_def
    apply (intro conjI impI)
    subgoal using 1 by blast
    subgoal using 2 by blast
    subgoal using 2 by blast
    subgoal using 2 by blast
    subgoal using 2 by blast
    subgoal using 3 by blast
    subgoal using 3 by blast
    subgoal using 3 by blast
    subgoal using 3 by blast
    subgoal using 4 by blast
    subgoal using 4 by blast
    subgoal using 5 by blast
    done
qed

theorem withdraw_effect_witness:
  "\<not> paused funded \<and> status funded = NOT_ENTERED \<and> (0xABC :: address) \<noteq> 0 \<and>
   \<not> nullifiers funded 7 \<and> isValidRoot funded 0 \<and>
   placeholder_verifier zero_proof [0, 7, ucast (0xABC :: address)] = Inr True \<and>
   DEPOSIT_AMOUNT \<le> balance funded \<and>
   withdraw placeholder_verifier accepts funded zero_proof 0 7 0xABC
     = Inr (funded\<lparr> nullifiers := (nullifiers funded)(7 := True),
                  balance := balance funded - DEPOSIT_AMOUNT,
                  credited := (credited funded)(0xABC := credited funded 0xABC + DEPOSIT_AMOUNT),
                  events := events funded @ [Withdrawal 0xABC DEPOSIT_AMOUNT 7] \<rparr>) \<and>
   withdraw placeholder_verifier (\<lambda>u. None) funded zero_proof 0 7 0xABC
     = Inl (Error ''Transfer failed'') \<and>
   \<not> paused deployed \<and> status deployed = NOT_ENTERED \<and>
   \<not> nullifiers deployed 7 \<and> isValidRoot deployed 0 \<and>
   balance deployed < DEPOSIT_AMOUNT \<and>
   withdraw placeholder_verifier accepts deployed zero_proof 0 7 0xABC
     = Inl (Error ''Transfer failed'')"
proof -
  have f: "\<not> paused funded" "status funded = NOT_ENTERED" "(0xABC :: address) \<noteq> 0"
    "\<not> nullifiers funded 7" "isValidRoot funded 0"
    "placeholder_verifier zero_proof [0, 7, ucast (0xABC :: address)] = Inr True"
    by (simp_all add: funded_eq isValidRoot_set placeholder_verifier_def)
  have d: "\<not> paused deployed" "status deployed = NOT_ENTERED" "(0xABC :: address) \<noteq> 0"
    "\<not> nullifiers deployed 7" "isValidRoot deployed 0"
    "placeholder_verifier zero_proof [0, 7, ucast (0xABC :: address)] = Inr True"
    by (simp_all add: deployed_def constructor_def isValidRoot_set placeholder_verifier_def)
  have b: "DEPOSIT_AMOUNT \<le> balance funded" "balance deployed < DEPOSIT_AMOUNT"
    by (simp_all add: funded_eq deployed_def constructor_def DEPOSIT_AMOUNT_def)
  from withdraw_effect
    [where s = funded and r = "0xABC" and h = 7 and root = 0 and V = placeholder_verifier
       and pf = zero_proof and callee = accepts and txs = "[]" and sender = 3
       and V' = placeholder_verifier
       and u = "funded\<lparr> nullifiers := (nullifiers funded)(7 := True),
                 status := ENTERED,
                 balance := balance funded - DEPOSIT_AMOUNT,
                 credited := (credited funded)(0xABC := credited funded 0xABC + DEPOSIT_AMOUNT) \<rparr>"]
    f b(1)
  have 1: "withdraw placeholder_verifier accepts funded zero_proof 0 7 0xABC
     = Inr (funded\<lparr> nullifiers := (nullifiers funded)(7 := True),
                  balance := balance funded - DEPOSIT_AMOUNT,
                  credited := (credited funded)(0xABC := credited funded 0xABC + DEPOSIT_AMOUNT),
                  events := events funded @ [Withdrawal 0xABC DEPOSIT_AMOUNT 7] \<rparr>)"
    by (simp add: Let_def accepts_def)
  from withdraw_effect
    [where s = funded and r = "0xABC" and h = 7 and root = 0 and V = placeholder_verifier
       and pf = zero_proof and callee = "\<lambda>u. None" and txs = "[]" and sender = 3
       and V' = placeholder_verifier and u = funded] f
  have 2: "withdraw placeholder_verifier (\<lambda>u. None) funded zero_proof 0 7 0xABC
     = Inl (Error ''Transfer failed'')"
    by (simp add: Let_def)
  from withdraw_effect
    [where s = deployed and r = "0xABC" and h = 7 and root = 0 and V = placeholder_verifier
       and pf = zero_proof and callee = accepts and txs = "[]" and sender = 3
       and V' = placeholder_verifier and u = deployed] d b(2)
  have 3: "withdraw placeholder_verifier accepts deployed zero_proof 0 7 0xABC
     = Inl (Error ''Transfer failed'')"
    by (simp add: Let_def)
  from f d b 1 2 3 show ?thesis by simp
qed

subsection \<open>C9: the root history only grows\<close>

text \<open>
  Claim C9: the root history before a run of calls is a prefix of the root history
  after it, and before a successful call a prefix of the one after; a root that is
  valid stays valid; and the genesis root \<open>bytes32(0)\<close> is valid in every state that a
  run of calls reaches from the constructor.
\<close>

theorem root_history_append_only:
  "prefix (merkleRoots s) (merkleRoots (run V s txs)) \<and>
   (isValidRoot s root \<longrightarrow> isValidRoot (run V s txs) root) \<and>
   isValidRoot (run V (constructor deployer verifier_address) txs) 0 \<and>
   (exec V s sender c = Inr s' \<longrightarrow>
      prefix (merkleRoots s) (merkleRoots s') \<and> (isValidRoot s root \<longrightarrow> isValidRoot s' root))"
proof -
  have mono: "isValidRoot a root \<Longrightarrow> isValidRoot b root"
    if "prefix (merkleRoots a) (merkleRoots b)" for a b root
    using that set_mono_prefix by (fastforce simp: isValidRoot_set)
  have 1: "prefix (merkleRoots s) (merkleRoots (run V s txs))" for s
    by (rule run_roots_prefix)
  have "isValidRoot (constructor deployer verifier_address) 0"
    by (simp add: isValidRoot_set constructor_def)
  then have 2: "isValidRoot (run V (constructor deployer verifier_address) txs) 0"
    using mono [OF 1] by blast
  have 3: "prefix (merkleRoots s) (merkleRoots s')" if "exec V s sender c = Inr s'"
    using that by (rule exec_roots_prefix)
  from 1 2 3 mono show ?thesis by blast
qed

theorem root_history_append_only_witness:
  "isValidRoot deployed 0 \<and>
   isValidRoot (run placeholder_verifier deployed
      [(1, Call_addMerkleRoot 9), (3, Call_deposit 5 DEPOSIT_AMOUNT 0), (1, Call_pause)]) 0 \<and>
   exec placeholder_verifier deployed 1 (Call_addMerkleRoot 9)
     = Inr (deployed\<lparr> merkleRoots := [0, 9], events := events deployed @ [MerkleRootUpdated 9] \<rparr>) \<and>
   prefix (merkleRoots deployed)
     (merkleRoots (deployed\<lparr> merkleRoots := [0, 9], events := events deployed @ [MerkleRootUpdated 9] \<rparr>))"
proof -
  have v: "isValidRoot deployed 0"
    by (simp add: isValidRoot_set deployed_def constructor_def)
  have e: "exec placeholder_verifier deployed 1 (Call_addMerkleRoot 9)
     = Inr (deployed\<lparr> merkleRoots := [0, 9], events := events deployed @ [MerkleRootUpdated 9] \<rparr>)"
    by (simp add: addMerkleRoot_def deployed_def constructor_def)
  show ?thesis
    using v e
      root_history_append_only
        [where s = deployed and V = placeholder_verifier and root = 0 and sender = 1
           and c = "Call_addMerkleRoot 9"
           and txs = "[(1, Call_addMerkleRoot 9), (3, Call_deposit 5 DEPOSIT_AMOUNT 0), (1, Call_pause)]"
           and s' = "deployed\<lparr> merkleRoots := [0, 9], events := events deployed @ [MerkleRootUpdated 9] \<rparr>"]
    by simp
qed

subsection \<open>C10: withdraw and the commitments\<close>

text \<open>
  Claim C10 as the specification states it: on two states that differ in the
  commitments only, the same \<open>withdraw\<close> call succeeds in both or fails in both. It
  fails on the contract: the mapping \<open>commitments\<close> is public, and the recipient's code,
  which runs during the transfer, can read it. The same \<open>withdraw\<close> to a recipient
  that reverts unless the commitment 5 is present succeeds on the funded contract and
  reverts with \<open>Transfer failed\<close> on the state that differs from it in having no
  commitment.
\<close>

theorem withdraw_payee_reads_commitments:
  "withdraw placeholder_verifier reading_payee funded zero_proof 0 7 0xABC
     = Inr after_withdrawal \<and>
   withdraw placeholder_verifier reading_payee (funded\<lparr> commitments := commitments deployed \<rparr>)
       zero_proof 0 7 0xABC
     = Inl (Error ''Transfer failed'')"
  by (simp add: after_withdrawal_eq funded_eq withdraw_def call_value_def isValidRoot_set
      placeholder_verifier_def reading_payee_def inputs_def deployed_def constructor_def)

text \<open>
  Claim C10, amended: \<open>withdraw\<close> itself never reads the commitments. On two states
  that differ in the commitments only, the same call with a recipient that refuses the
  payment reverts with the same error, so the modifiers, the four checks and the test of
  the balance give the same result; and the same call with a recipient whose code does
  the same on both states (it returns in states that differ in the commitments only, or
  reverts on both) reverts in both with the same error or succeeds in both with the
  same changes.
\<close>

theorem withdraw_ignores_commitments:
  "(let t = s\<lparr> nullifiers := (nullifiers s)(h := True),
                status := ENTERED,
                balance := balance s - DEPOSIT_AMOUNT,
                credited := (credited s)(r := credited s r + DEPOSIT_AMOUNT) \<rparr>
    in withdraw V (\<lambda>u. None) (s\<lparr> commitments := cm \<rparr>) pf root h r
         = withdraw V (\<lambda>u. None) s pf root h r \<and>
       (callee (t\<lparr> commitments := cm \<rparr>)
          = map_option (\<lambda>x. x\<lparr> commitments := cm \<rparr>) (callee t) \<longrightarrow>
        withdraw V callee (s\<lparr> commitments := cm \<rparr>) pf root h r
          = map_sum id (\<lambda>x. x\<lparr> commitments := cm \<rparr>) (withdraw V callee s pf root h r)))"
proof -
  let ?t = "s\<lparr> nullifiers := (nullifiers s)(h := True),
                status := ENTERED,
                balance := balance s - DEPOSIT_AMOUNT,
                credited := (credited s)(r := credited s r + DEPOSIT_AMOUNT) \<rparr>"
  have 1: "withdraw V (\<lambda>u. None) (s\<lparr> commitments := cm \<rparr>) pf root h r
         = withdraw V (\<lambda>u. None) s pf root h r"
    by (simp add: withdraw_def call_value_def isValidRoot_def split: sum.splits)
  have 2: "withdraw V callee (s\<lparr> commitments := cm \<rparr>) pf root h r
          = map_sum id (\<lambda>x. x\<lparr> commitments := cm \<rparr>) (withdraw V callee s pf root h r)"
    if "callee (?t\<lparr> commitments := cm \<rparr>)
          = map_option (\<lambda>x. x\<lparr> commitments := cm \<rparr>) (callee ?t)"
    using that
    by (cases "callee ?t")
       (simp_all add: withdraw_def call_value_def isValidRoot_def commitments_update_last
          split: sum.splits)
  from 1 2 show ?thesis unfolding Let_def by blast
qed

theorem withdraw_ignores_commitments_witness:
  "withdraw placeholder_verifier accepts (funded\<lparr> commitments := commitments deployed \<rparr>)
       zero_proof 0 7 0xABC
     = Inr (after_withdrawal\<lparr> commitments := commitments deployed \<rparr>)"
proof -
  let ?t = "funded\<lparr> nullifiers := (nullifiers funded)(7 := True),
                status := ENTERED,
                balance := balance funded - DEPOSIT_AMOUNT,
                credited := (credited funded)(0xABC := credited funded 0xABC + DEPOSIT_AMOUNT) \<rparr>"
  have "accepts (?t\<lparr> commitments := commitments deployed \<rparr>)
      = map_option (\<lambda>x. x\<lparr> commitments := commitments deployed \<rparr>) (accepts ?t)"
    by (simp add: accepts_def)
  with withdraw_ignores_commitments
    [where V = placeholder_verifier and callee = accepts and s = funded
       and cm = "commitments deployed" and pf = zero_proof and root = 0 and h = 7
       and r = "0xABC"]
  show ?thesis by (simp add: funded_withdraw Let_def)
qed

end
